theory Spec2Isabelle
  imports Main "HOL-Library.Sublist"
begin

section \<open>Configuration constants of \<open>src/index.js\<close>\<close>

text \<open>
  The crawler is configured by module-level constants (lines 9 to 56). The model takes
  them as one record, so that properties can be stated for every configuration;
  \<open>source_config\<close> holds the values written in the file. Numbers that the code only
  compares with array lengths and counters are natural numbers.
\<close>

record config =
  URL_LIST :: "string list"
  MUST_INCLUDE_DOMAIN :: bool
  DOMAIN :: string
  MAX_NUM_LINKS_TO_FOLLOW :: nat
  NUM_LINKS_TO_RELAUNCH_BROWSER :: nat
  TIMEOUT :: nat
  NETWORK_WAIT_CONDITION :: string
  CAPTURE_SOURCE_PAGE_SCREENSHOT :: bool
  CAPTURE_DESTINATION_PAGE_SCREENSHOT_ON_SUCCESS :: bool
  CAPTURE_DESTINATION_PAGE_SCREENSHOT_ON_FAILURE :: bool

definition source_config :: config where
  "source_config =
     \<lparr> URL_LIST = [''https://www.mydomain.com/''],
       MUST_INCLUDE_DOMAIN = True,
       DOMAIN = ''mydomain.com'',
       MAX_NUM_LINKS_TO_FOLLOW = 750,
       NUM_LINKS_TO_RELAUNCH_BROWSER = 5,
       TIMEOUT = 15000,
       NETWORK_WAIT_CONDITION = ''domcontentloaded'',
       CAPTURE_SOURCE_PAGE_SCREENSHOT = False,
       CAPTURE_DESTINATION_PAGE_SCREENSHOT_ON_SUCCESS = False,
       CAPTURE_DESTINATION_PAGE_SCREENSHOT_ON_FAILURE = False \<rparr>"

section \<open>JavaScript strings and numbers\<close>

text \<open>
  \<open>String.prototype.includes\<close>: the argument occurs as a contiguous run of characters.
  \<open>String.prototype.startsWith\<close> is \<open>prefix\<close>, with the arguments swapped.
\<close>

fun js_includes :: "string \<Rightarrow> string \<Rightarrow> bool" where
  "js_includes [] sub = (sub = [])"
| "js_includes (c # cs) sub = (prefix sub (c # cs) \<or> js_includes cs sub)"

definition startsWith :: "string \<Rightarrow> string \<Rightarrow> bool" where
  "startsWith s p = prefix p s"

text \<open>
  \<open>String.prototype.trim\<close> removes white space and line terminators at both ends.
  Strings are byte strings here (UTF-8), so each character that JavaScript strips is the
  byte sequence that encodes it: one byte for tab, line feed, vertical tab, form feed,
  carriage return and space; two bytes for U+00A0; three bytes for U+1680, U+2000 to
  U+200A, U+2028, U+2029, U+202F, U+205F, U+3000 and U+FEFF.
\<close>

definition is_space :: "char \<Rightarrow> bool" where
  "is_space c = (c \<in> set [CHR 0x09, CHR 0x0A, CHR 0x0B, CHR 0x0C, CHR 0x0D, CHR 0x20])"

definition is_space2 :: "char \<Rightarrow> char \<Rightarrow> bool" where
  "is_space2 a b = (a = CHR 0xC2 \<and> b = CHR 0xA0)"

definition is_space3 :: "char \<Rightarrow> char \<Rightarrow> char \<Rightarrow> bool" where
  "is_space3 a b c =
     ((a = CHR 0xE1 \<and> b = CHR 0x9A \<and> c = CHR 0x80)
      \<or> (a = CHR 0xE2 \<and> b = CHR 0x80
          \<and> c \<in> set [CHR 0x80, CHR 0x81, CHR 0x82, CHR 0x83, CHR 0x84, CHR 0x85, CHR 0x86,
                       CHR 0x87, CHR 0x88, CHR 0x89, CHR 0x8A, CHR 0xA8, CHR 0xA9, CHR 0xAF])
      \<or> (a = CHR 0xE2 \<and> b = CHR 0x81 \<and> c = CHR 0x9F)
      \<or> (a = CHR 0xE3 \<and> b = CHR 0x80 \<and> c = CHR 0x80)
      \<or> (a = CHR 0xEF \<and> b = CHR 0xBB \<and> c = CHR 0xBF))"

text \<open>White space stripped from the front of a string.\<close>

fun trimStart :: "string \<Rightarrow> string" where
  "trimStart [] = []"
| "trimStart [a] = (if is_space a then [] else [a])"
| "trimStart [a, b] =
     (if is_space a then trimStart [b]
      else if is_space2 a b then []
      else [a, b])"
| "trimStart (a # b # c # s) =
     (if is_space a then trimStart (b # c # s)
      else if is_space2 a b then trimStart (c # s)
      else if is_space3 a b c then trimStart s
      else a # b # c # s)"

text \<open>
  White space stripped from the end of a string, on the reversed string: its first
  byte is the last byte of the string.
\<close>

fun trimEnd_rev :: "string \<Rightarrow> string" where
  "trimEnd_rev [] = []"
| "trimEnd_rev [c] = (if is_space c then [] else [c])"
| "trimEnd_rev [c, b] =
     (if is_space c then trimEnd_rev [b]
      else if is_space2 b c then []
      else [c, b])"
| "trimEnd_rev (c # b # a # s) =
     (if is_space c then trimEnd_rev (b # a # s)
      else if is_space2 b c then trimEnd_rev (a # s)
      else if is_space3 a b c then trimEnd_rev s
      else c # b # a # s)"

definition trim :: "string \<Rightarrow> string" where
  "trim s = rev (trimEnd_rev (rev (trimStart s)))"

lemma trim_example:
  "trim (CHR 0xC2 # CHR 0xA0 # CHR 0x09 # ''a b'' @ [CHR 0xE2, CHR 0x80, CHR 0xA8, CHR 0x20]) = ''a b''"
  by (simp add: trim_def is_space_def is_space2_def is_space3_def)

text \<open>Decimal rendering of a number, as string concatenation with \<open>+\<close> produces it.\<close>

definition digit :: "nat \<Rightarrow> char" where
  "digit d = ''0123456789'' ! d"

fun decimal_digits :: "nat \<Rightarrow> string \<Rightarrow> string" where
  "decimal_digits n acc =
     (if n < 10 then digit n # acc else decimal_digits (n div 10) (digit (n mod 10) # acc))"

declare decimal_digits.simps [simp del]

definition toString_nat :: "nat \<Rightarrow> string" where
  "toString_nat n = decimal_digits n []"

definition toString_int :: "int \<Rightarrow> string" where
  "toString_int i = (if 0 \<le> i then toString_nat (nat i) else CHR ''-'' # toString_nat (nat (- i)))"

text \<open>
  \<open>response.status()\<close> is a number or \<open>undefined\<close> (\<open>None\<close>). It is truthy when it is a
  number other than zero.
\<close>

type_synonym status = "int option"

fun truthy :: "status \<Rightarrow> bool" where
  "truthy None = False"
| "truthy (Some n) = (n \<noteq> 0)"

fun status_lt :: "status \<Rightarrow> int \<Rightarrow> bool" where
  "status_lt None b = False"
| "status_lt (Some n) b = (n < b)"

fun toString_status :: "status \<Rightarrow> string" where
  "toString_status None = ''undefined''"
| "toString_status (Some n) = toString_int n"

text \<open>A variable that holds a string or \<open>null\<close>, concatenated to a string.\<close>

fun toString_nullable :: "string option \<Rightarrow> string" where
  "toString_nullable None = ''null''"
| "toString_nullable (Some s) = s"

section \<open>The request handler (lines 234 to 241)\<close>

record request =
  resourceType :: string
  request_url :: string

datatype verdict = Continued | Aborted

definition on_request :: "config \<Rightarrow> request \<Rightarrow> verdict" where
  "on_request cfg request =
     (if resourceType request = ''document'' then
        (if MUST_INCLUDE_DOMAIN cfg \<and> js_includes (request_url request) (DOMAIN cfg)
         then Continued
         else Continued)
      else Aborted)"

section \<open>Options passed to \<open>page.goto\<close> (lines 184 and 243 to 246)\<close>

text \<open>
  The options are an object literal: a list of property names with their values. Both
  call sites write \<open>{ waitUntil: ['load', NETWORK_WAIT_CONDITION], TIMEOUT }\<close>; the
  shorthand \<open>TIMEOUT\<close> is the property named \<open>TIMEOUT\<close>. Puppeteer reads the
  navigation timeout from the property named \<open>timeout\<close>.
\<close>

datatype option_value = Strings "string list" | Number nat

type_synonym options = "(string \<times> option_value) list"

definition goto_options :: "config \<Rightarrow> options" where
  "goto_options cfg =
     [(''waitUntil'', Strings [''load'', NETWORK_WAIT_CONDITION cfg]),
      (''TIMEOUT'', Number (TIMEOUT cfg))]"

definition timeout_option :: "options \<Rightarrow> option_value option" where
  "timeout_option opts = map_of opts ''timeout''"

section \<open>Links and the report\<close>

text \<open>
  Modelled from the spec: the classes \<open>SyntheticsLink\<close> and \<open>BrokenLinkCheckerReport\<close>
  come from the canary runtime and are not in the repository. A link is the record of
  section 3 of the specification; each \<open>with...\<close> method sets one field and returns the
  link, and \<open>addScreenshotResult\<close> appends what it is given (\<open>None\<close> is \<open>undefined\<close>).
  The report is the list of its entries; the total of broken links counts the entries
  with a non-empty failure reason.
\<close>

record link =
  getUrl :: string
  parentUrl :: "string option"
  linkText :: "string option"
  statusCode :: status
  statusText :: "string option"
  failureReason :: "string option"
  screenshotResults :: "string option list"

definition SyntheticsLink :: "string \<Rightarrow> link" where
  "SyntheticsLink u =
     \<lparr> getUrl = u, parentUrl = None, linkText = None, statusCode = None,
       statusText = None, failureReason = None, screenshotResults = [] \<rparr>"

definition withParentUrl :: "string \<Rightarrow> link \<Rightarrow> link" where
  "withParentUrl p l = l\<lparr>parentUrl := Some p\<rparr>"

definition withText :: "string \<Rightarrow> link \<Rightarrow> link" where
  "withText t l = l\<lparr>linkText := Some t\<rparr>"

definition withStatusCode :: "status \<Rightarrow> link \<Rightarrow> link" where
  "withStatusCode c l = l\<lparr>statusCode := c\<rparr>"

definition withStatusText :: "string \<Rightarrow> link \<Rightarrow> link" where
  "withStatusText t l = l\<lparr>statusText := Some t\<rparr>"

definition withFailureReason :: "string \<Rightarrow> link \<Rightarrow> link" where
  "withFailureReason r l = l\<lparr>failureReason := Some r\<rparr>"

definition addScreenshotResult :: "string option \<Rightarrow> link \<Rightarrow> link" where
  "addScreenshotResult r l = l\<lparr>screenshotResults := screenshotResults l @ [r]\<rparr>"

definition has_failure :: "link \<Rightarrow> bool" where
  "has_failure l = (case failureReason l of None \<Rightarrow> False | Some r \<Rightarrow> r \<noteq> [])"

definition getTotalLinksChecked :: "link list \<Rightarrow> nat" where
  "getTotalLinksChecked entries = length entries"

definition getTotalBrokenLinks :: "link list \<Rightarrow> nat" where
  "getTotalBrokenLinks entries = length (filter has_failure entries)"

section \<open>The collaborators\<close>

text \<open>
  What the browser, the network and the canary runtime answer is a parameter of the
  model. Every answer is indexed by the value of \<open>count\<close> in the iteration that asks;
  a thrown error is the string that \<open>error.toString()\<close> gives.

  A navigation is the outcome of the \<open>try\<close> block of lines 230 to 254 up to the
  assignment of \<open>response\<close>: an error thrown by \<open>setRequestInterception\<close>, by the
  registration of the handler or by \<open>page.goto\<close>; no response; or a response with its
  status and status text. What the browser does with the verdicts of the request
  handler is part of that outcome.
\<close>

datatype navigation =
    NavThrows string
  | NavNull
  | NavResponse status string

text \<open>
  One anchor element of the loaded page: its \<open>href\<close>, its text, and whether the call
  that restores its border throws. \<open>EvaluateThrows\<close> is an element on which
  \<open>page.evaluate\<close> throws; a page on which the first two evaluations of lines 76 to 80
  throw is a page whose first element is \<open>EvaluateThrows\<close>. (The callback of lines 84
  to 105 runs inside the page, where the constant of line 100 is not defined: with
  \<open>CAPTURE_SOURCE_PAGE_SCREENSHOT\<close> on, an anchor that passes the condition is such an
  element.)
\<close>

datatype element =
    Anchor string string bool
  | EvaluateThrows

record env =
  pathname :: "string \<Rightarrow> string option"
  page_goto :: "nat \<Rightarrow> string \<Rightarrow> options \<Rightarrow> navigation"
  blank_goto :: "nat \<Rightarrow> options \<Rightarrow> navigation"
  anchors :: "nat \<Rightarrow> element list"
  relaunch_error :: "nat \<Rightarrow> string option"
  synthetics_takeScreenshot :: "nat \<Rightarrow> string \<Rightarrow> string \<Rightarrow> string + string"
  addLink_error :: "nat \<Rightarrow> string option"

text \<open>
  \<open>pathname u\<close> is \<open>new URL(u).pathname\<close>, \<open>None\<close> when the constructor throws its
  \<open>TypeError\<close>. \<open>relaunch_error k\<close> is the error of \<open>synthetics.close()\<close>,
  \<open>synthetics.launch()\<close> or \<open>synthetics.getPage()\<close> in lines 219 to 221, if one throws.
  \<open>synthetics_takeScreenshot\<close> answers \<open>Inl\<close> an error or \<open>Inr\<close> a result.
\<close>

datatype thrown =
    InvalidUrl string
  | UndefinedLink
  | SessionError string
  | CanaryError string

section \<open>\<open>takeScreenshot\<close>, \<open>getFileName\<close>, \<open>resetPage\<close>\<close>

definition takeScreenshot :: "env \<Rightarrow> nat \<Rightarrow> string \<Rightarrow> string \<Rightarrow> string option" where
  "takeScreenshot e k fileName sfx =
     (case synthetics_takeScreenshot e k fileName sfx of
        Inr r \<Rightarrow> Some r
      | Inl err \<Rightarrow> None)"

definition s3_char :: "char \<Rightarrow> bool" where
  "s3_char c = (c \<in> set (''abcdefghijklmnopqrstuvwxyz'' @ ''ABCDEFGHIJKLMNOPQRSTUVWXYZ''
                    @ ''0123456789'' @ ''-_.!*()'' @ [CHR 0x27]))"

definition last_segment :: "string \<Rightarrow> string" where
  "last_segment p = rev (takeWhile (\<lambda>c. c \<noteq> CHR ''/'') (rev p))"

definition getFileName :: "env \<Rightarrow> string \<Rightarrow> string \<Rightarrow> thrown + string" where
  "getFileName e u defaultName =
     (if u = [] then Inr defaultName
      else case pathname e u of
        None \<Rightarrow> Inl (InvalidUrl u)
      | Some p \<Rightarrow>
          let path = (if p \<noteq> [] \<and> last p = CHR ''/'' then butlast p else p);
              fileName = (if path \<noteq> [] then last_segment path else ''index'')
          in Inr (filter s3_char fileName))"

text \<open>\<open>resetPage\<close> returns the error that leaves it: its \<open>catch\<close> block is empty.\<close>

definition resetPage :: "config \<Rightarrow> env \<Rightarrow> nat \<Rightarrow> thrown option" where
  "resetPage cfg e k =
     (case blank_goto e k (goto_options cfg) of
        NavThrows err \<Rightarrow> None
      | NavNull \<Rightarrow> None
      | NavResponse st t \<Rightarrow> None)"

section \<open>Relaunch or reset (lines 218 to 224)\<close>

datatype session_action = Relaunch | ResetPage | UseAsIs

text \<open>
  \<open>count % R == 0\<close>: for \<open>R = 0\<close> the remainder is \<open>NaN\<close> and the comparison is
  false.
\<close>

definition rem_is_zero :: "nat \<Rightarrow> nat \<Rightarrow> bool" where
  "rem_is_zero a b = (b \<noteq> 0 \<and> a mod b = 0)"

definition session_action :: "config \<Rightarrow> nat \<Rightarrow> session_action" where
  "session_action cfg k =
     (if rem_is_zero k (NUM_LINKS_TO_RELAUNCH_BROWSER cfg) \<and> k \<noteq> MAX_NUM_LINKS_TO_FOLLOW cfg
      then Relaunch
      else if k \<noteq> 1 then ResetPage
      else UseAsIs)"

text \<open>
  The calls made on the browser session, in order: closing and launching, the blank
  page of \<open>resetPage\<close>, and the \<open>try\<close> block that navigates to a link.
\<close>

datatype call = CloseLaunch | GotoBlank | Goto string

definition prepare_page :: "config \<Rightarrow> env \<Rightarrow> nat \<Rightarrow> thrown + call list" where
  "prepare_page cfg e k =
     (case session_action cfg k of
        Relaunch \<Rightarrow>
          (case relaunch_error e k of
             Some err \<Rightarrow> Inl (SessionError err)
           | None \<Rightarrow> Inr [CloseLaunch])
      | ResetPage \<Rightarrow>
          (case resetPage cfg e k of
             Some err \<Rightarrow> Inl err
           | None \<Rightarrow> Inr [GotoBlank])
      | UseAsIs \<Rightarrow> Inr [])"

section \<open>Navigation and classification (lines 243 to 279)\<close>

text \<open>
  The \<open>try\<close> block of lines 230 to 254: a thrown error and a missing response each set
  \<open>brokenLinkError\<close> and the failure reason; \<open>response\<close> stays \<open>null\<close> in both.
\<close>

definition after_goto :: "string \<Rightarrow> navigation \<Rightarrow> link \<Rightarrow> string option \<Rightarrow> link \<times> string option" where
  "after_goto nav_url nav l ble =
     (case nav of
        NavThrows err \<Rightarrow>
          (withFailureReason err l, Some (''Failed to load url: '' @ nav_url @ ''. '' @ err))
      | NavNull \<Rightarrow>
          (withFailureReason ''Received null or undefined response'' l,
           Some (''Failed to receive network response for url: '' @ nav_url))
      | NavResponse st t \<Rightarrow> (l, ble))"

definition succeeded :: "navigation \<Rightarrow> bool" where
  "succeeded nav =
     (case nav of
        NavResponse st t \<Rightarrow> truthy st \<and> status_lt st 400
      | NavThrows err \<Rightarrow> False
      | NavNull \<Rightarrow> False)"

definition classify ::
  "config \<Rightarrow> env \<Rightarrow> nat \<Rightarrow> string \<Rightarrow> string \<Rightarrow> navigation \<Rightarrow> link \<Rightarrow> string option
     \<Rightarrow> link \<times> string option" where
  "classify cfg e k fileName nav_url nav l ble =
     (case nav of
        NavResponse st t \<Rightarrow>
          if truthy st \<and> status_lt st 400 then
            (let l1 = withStatusText t (withStatusCode st l)
             in (if CAPTURE_DESTINATION_PAGE_SCREENSHOT_ON_SUCCESS cfg
                 then addScreenshotResult (takeScreenshot e k fileName ''succeeded'') l1
                 else l1,
                 ble))
          else
            (let statusString = ''Status code: '' @ toString_status st @ '' '' @ t;
                 l1 = withFailureReason statusString (withStatusText t (withStatusCode st l))
             in (if CAPTURE_DESTINATION_PAGE_SCREENSHOT_ON_FAILURE cfg
                 then addScreenshotResult (takeScreenshot e k fileName ''failed'') l1
                 else l1,
                 Some (''Failed to load url: '' @ nav_url @ ''. '' @ statusString)))
      | NavThrows err \<Rightarrow> (l, ble)
      | NavNull \<Rightarrow> (l, ble))"

definition process_link ::
  "config \<Rightarrow> env \<Rightarrow> nat \<Rightarrow> string \<Rightarrow> string \<Rightarrow> navigation \<Rightarrow> link \<Rightarrow> string option
     \<Rightarrow> link \<times> string option" where
  "process_link cfg e k fileName nav_url nav l ble =
     (case after_goto nav_url nav l ble of
        (l1, ble1) \<Rightarrow> classify cfg e k fileName nav_url nav l1 ble1)"

section \<open>\<open>grabLinks\<close> (lines 73 to 141)\<close>

text \<open>The condition for grabbing a link, lines 89 to 94.\<close>

definition grab_condition :: "string \<Rightarrow> string list \<Rightarrow> bool" where
  "grab_condition u exploredUrls =
     (u \<noteq> [] \<and> u \<notin> set exploredUrls \<and> (startsWith u ''http'' \<or> startsWith u ''https''))"

text \<open>
  Lines 117 to 131: the source page screenshot of one grabbed link. \<open>None\<close> when an
  error leaves \<open>grabLinks\<close> (from \<open>getFileName\<close>, or from restoring the border);
  otherwise the screenshot result, \<open>undefined\<close> when none was taken.
\<close>

definition source_screenshot :: "config \<Rightarrow> env \<Rightarrow> nat \<Rightarrow> string \<Rightarrow> bool \<Rightarrow> string option option" where
  "source_screenshot cfg e k u restore_throws =
     (if CAPTURE_SOURCE_PAGE_SCREENSHOT cfg then
        (case getFileName e u ''loaded'' of
           Inl err \<Rightarrow> None
         | Inr fileName \<Rightarrow>
             let r = takeScreenshot e k fileName ''sourcePage''
             in if restore_throws then None else Some r)
      else Some None)"

text \<open>
  The \<open>for\<close> loop over the anchors. The result is the list of grabbed links, \<open>None\<close> when
  an error left the function, together with \<open>exploredUrls\<close>, which the function
  changes in place and which keeps its changes when an error leaves.
\<close>

fun grabLinks_loop ::
  "config \<Rightarrow> env \<Rightarrow> nat \<Rightarrow> string \<Rightarrow> element list \<Rightarrow> link list \<Rightarrow> string list
     \<Rightarrow> link list option \<times> string list" where
  "grabLinks_loop cfg e k sourceUrl [] grabbedLinks exploredUrls = (Some grabbedLinks, exploredUrls)"
| "grabLinks_loop cfg e k sourceUrl (EvaluateThrows # es) grabbedLinks exploredUrls =
     (None, exploredUrls)"
| "grabLinks_loop cfg e k sourceUrl (Anchor h t restore_throws # es) grabbedLinks exploredUrls =
     (let u = trim h in
      if grab_condition u exploredUrls then
        (let exploredUrls' = exploredUrls @ [u] in
         case source_screenshot cfg e k u restore_throws of
           None \<Rightarrow> (None, exploredUrls')
         | Some shot \<Rightarrow>
             let l = addScreenshotResult shot
                       (withText (trim t) (withParentUrl sourceUrl (SyntheticsLink u)));
                 grabbedLinks' = grabbedLinks @ [l]
             in if length exploredUrls' \<ge> MAX_NUM_LINKS_TO_FOLLOW cfg
                then (Some grabbedLinks', exploredUrls')
                else grabLinks_loop cfg e k sourceUrl es grabbedLinks' exploredUrls')
      else grabLinks_loop cfg e k sourceUrl es grabbedLinks exploredUrls)"

definition grabLinks ::
  "config \<Rightarrow> env \<Rightarrow> nat \<Rightarrow> string \<Rightarrow> string list \<Rightarrow> link list option \<times> string list" where
  "grabLinks cfg e k sourceUrl exploredUrls =
     grabLinks_loop cfg e k sourceUrl (anchors e k) [] exploredUrls"

section \<open>The crawl (lines 193 to 333)\<close>

record state =
  exploredUrls :: "string list"
  synLinks :: "link list"
  count :: nat
  brokenLinkError :: "string option"
  brokenLinkCheckerReport :: "link list"
  calls :: "call list"

definition initial_state :: "config \<Rightarrow> state" where
  "initial_state cfg =
     \<lparr> exploredUrls = URL_LIST cfg,
       synLinks = map SyntheticsLink (URL_LIST cfg),
       count = 0,
       brokenLinkError = None,
       brokenLinkCheckerReport = [],
       calls = [] \<rparr>"

text \<open>
  \<open>addLink\<close> inside its \<open>try\<close> (lines 284 to 288): the report is unchanged when the
  call throws.
\<close>

definition addLink :: "env \<Rightarrow> nat \<Rightarrow> link \<Rightarrow> link list \<Rightarrow> link list" where
  "addLink e k l entries =
     (case addLink_error e k of
        Some err \<Rightarrow> entries
      | None \<Rightarrow> entries @ [l])"

text \<open>
  Lines 293 to 307: more links are grabbed after a success below the cap; an error of
  \<open>grabLinks\<close> is caught and the queue gets nothing.
\<close>

definition discover ::
  "config \<Rightarrow> env \<Rightarrow> nat \<Rightarrow> string \<Rightarrow> navigation \<Rightarrow> string list \<Rightarrow> link list \<times> string list" where
  "discover cfg e k nav_url nav explored =
     (if succeeded nav \<and> length explored < MAX_NUM_LINKS_TO_FOLLOW cfg then
        (case grabLinks cfg e k nav_url explored of
           (Some moreLinks, explored') \<Rightarrow> (moreLinks, explored')
         | (None, explored') \<Rightarrow> ([], explored'))
      else ([], explored))"

text \<open>One pass through the body of the \<open>while\<close> loop, lines 208 to 307.\<close>

definition iteration :: "config \<Rightarrow> env \<Rightarrow> state \<Rightarrow> thrown + state" where
  "iteration cfg e s =
     (case synLinks s of
        [] \<Rightarrow> Inl UndefinedLink
      | l # rest \<Rightarrow>
          (let nav_url = getUrl l in
           (case getFileName e nav_url ''loaded'' of
              Inl err \<Rightarrow> Inl err
            | Inr fileName \<Rightarrow>
                (let k = count s + 1 in
                 (case prepare_page cfg e k of
                    Inl err \<Rightarrow> Inl err
                  | Inr cs \<Rightarrow>
                      (let nav = page_goto e k nav_url (goto_options cfg);
                           (l', ble) = process_link cfg e k fileName nav_url nav l (brokenLinkError s);
                           (moreLinks, explored) = discover cfg e k nav_url nav (exploredUrls s)
                       in Inr \<lparr> exploredUrls = explored,
                                synLinks = rest @ moreLinks,
                                count = k,
                                brokenLinkError = ble,
                                brokenLinkCheckerReport = addLink e k l' (brokenLinkCheckerReport s),
                                calls = calls s @ cs @ [Goto nav_url] \<rparr>))))))"

section \<open>What a page offers, and the bound on the queue\<close>

text \<open>
  The addresses that the loop of \<open>grabLinks\<close> would accept on a page if nothing stopped
  it: each trimmed \<open>href\<close> that passes the condition of lines 89 to 94 against the
  addresses explored so far, in page order.
\<close>

fun eligible :: "element list \<Rightarrow> string list \<Rightarrow> string list" where
  "eligible [] explored = []"
| "eligible (EvaluateThrows # es) explored = eligible es explored"
| "eligible (Anchor h t restore_throws # es) explored =
     (let u = trim h in
      if grab_condition u explored then u # eligible es (explored @ [u])
      else eligible es explored)"

lemma eligible_fresh: "set (eligible es ex) \<inter> set ex = {} \<and> distinct (eligible es ex)"
proof (induction es arbitrary: ex)
  case Nil
  then show ?case by simp
next
  case (Cons a es)
  show ?case
  proof (cases a)
    case EvaluateThrows
    then show ?thesis using Cons.IH [of ex] by simp
  next
    case (Anchor h t rt)
    show ?thesis
    proof (cases "grab_condition (trim h) ex")
      case True
      from Cons.IH [of "ex @ [trim h]"] True Anchor show ?thesis
        by (auto simp: Let_def grab_condition_def)
    next
      case False
      then show ?thesis using Cons.IH [of ex] Anchor by (simp add: Let_def)
    qed
  qed
qed

lemma grabLinks_loop_explored:
  "grabLinks_loop cfg e k src es g ex = (r, ex') \<Longrightarrow> length ex < MAX_NUM_LINKS_TO_FOLLOW cfg \<Longrightarrow>
   \<exists>n \<le> MAX_NUM_LINKS_TO_FOLLOW cfg - length ex. ex' = ex @ take n (eligible es ex)"
proof (induction es arbitrary: g ex)
  case Nil
  then show ?case by auto
next
  case (Cons a es)
  show ?case
  proof (cases a)
    case EvaluateThrows
    with Cons.prems show ?thesis by (intro exI [of _ 0]) auto
  next
    case (Anchor h t rt)
    show ?thesis
    proof (cases "grab_condition (trim h) ex")
      case False
      with Cons.prems Anchor have "grabLinks_loop cfg e k src es g ex = (r, ex')"
        by (simp add: Let_def)
      from Cons.IH [OF this Cons.prems(2)] False Anchor show ?thesis
        by (simp add: Let_def)
    next
      case True
      let ?u = "trim h"
      let ?ex1 = "ex @ [?u]"
      have el: "eligible (a # es) ex = ?u # eligible es ?ex1"
        using True Anchor by (simp add: Let_def)
      show ?thesis
      proof (cases "source_screenshot cfg e k ?u rt")
        case None
        with Cons.prems True Anchor have "ex' = ?ex1" by (simp add: Let_def)
        then show ?thesis using el Cons.prems(2) by (intro exI [of _ 1]) auto
      next
        case (Some shot)
        show ?thesis
        proof (cases "length ?ex1 \<ge> MAX_NUM_LINKS_TO_FOLLOW cfg")
          case True
          with Cons.prems \<open>grab_condition ?u ex\<close> Anchor Some have "ex' = ?ex1"
            by (simp add: Let_def)
          then show ?thesis using el Cons.prems(2) by (intro exI [of _ 1]) auto
        next
          case False
          let ?g1 = "g @ [addScreenshotResult shot (withText (trim t) (withParentUrl src (SyntheticsLink ?u)))]"
          from False Cons.prems \<open>grab_condition ?u ex\<close> Anchor Some
          have "grabLinks_loop cfg e k src es ?g1 ?ex1 = (r, ex')"
            by (simp add: Let_def)
          from Cons.IH [OF this] False obtain n where
            n: "n \<le> MAX_NUM_LINKS_TO_FOLLOW cfg - length ?ex1" "ex' = ?ex1 @ take n (eligible es ?ex1)"
            by auto
          show ?thesis using n el False by (intro exI [of _ "Suc n"]) auto
        qed
      qed
    qed
  qed
qed


text \<open>The methods of a link leave its address alone.\<close>

lemma getUrl_grabbed [simp]:
  "getUrl (addScreenshotResult shot (withText t (withParentUrl p (SyntheticsLink u)))) = u"
  by (simp add: addScreenshotResult_def withText_def withParentUrl_def SyntheticsLink_def)

lemma grabLinks_loop_Some:
  "grabLinks_loop cfg e k src es g ex = (Some g', ex') \<Longrightarrow> length ex < MAX_NUM_LINKS_TO_FOLLOW cfg \<Longrightarrow>
   ex' = ex @ take (MAX_NUM_LINKS_TO_FOLLOW cfg - length ex) (eligible es ex) \<and>
   map getUrl g' = map getUrl g @ take (MAX_NUM_LINKS_TO_FOLLOW cfg - length ex) (eligible es ex)"
proof (induction es arbitrary: g ex)
  case Nil
  then show ?case by auto
next
  case (Cons a es)
  show ?case
  proof (cases a)
    case EvaluateThrows
    with Cons.prems show ?thesis by simp
  next
    case (Anchor h t rt)
    show ?thesis
    proof (cases "grab_condition (trim h) ex")
      case False
      with Cons.prems Anchor have "grabLinks_loop cfg e k src es g ex = (Some g', ex')"
        by (simp add: Let_def)
      from Cons.IH [OF this Cons.prems(2)] False Anchor show ?thesis
        by (simp add: Let_def)
    next
      case True
      let ?u = "trim h"
      let ?ex1 = "ex @ [?u]"
      have el: "eligible (a # es) ex = ?u # eligible es ?ex1"
        using True Anchor by (simp add: Let_def)
      show ?thesis
      proof (cases "source_screenshot cfg e k ?u rt")
        case None
        with Cons.prems True Anchor show ?thesis by (simp add: Let_def)
      next
        case (Some shot)
        let ?g1 = "g @ [addScreenshotResult shot (withText (trim t) (withParentUrl src (SyntheticsLink ?u)))]"
        show ?thesis
        proof (cases "length ?ex1 \<ge> MAX_NUM_LINKS_TO_FOLLOW cfg")
          case True
          with Cons.prems \<open>grab_condition ?u ex\<close> Anchor Some have r: "ex' = ?ex1" "g' = ?g1"
            by (simp_all add: Let_def)
          from True Cons.prems(2) have "MAX_NUM_LINKS_TO_FOLLOW cfg - length ex = Suc 0" by simp
          then show ?thesis using el r by simp
        next
          case False
          from False Cons.prems \<open>grab_condition ?u ex\<close> Anchor Some
          have "grabLinks_loop cfg e k src es ?g1 ?ex1 = (Some g', ex')"
            by (simp add: Let_def)
          from Cons.IH [OF this] False have
            n: "ex' = ?ex1 @ take (MAX_NUM_LINKS_TO_FOLLOW cfg - length ?ex1) (eligible es ?ex1)"
               "map getUrl g' = map getUrl ?g1 @ take (MAX_NUM_LINKS_TO_FOLLOW cfg - length ?ex1) (eligible es ?ex1)"
            by auto
          from False have "MAX_NUM_LINKS_TO_FOLLOW cfg - length ex = Suc (MAX_NUM_LINKS_TO_FOLLOW cfg - length ?ex1)"
            by simp
          then show ?thesis using n el by simp
        qed
      qed
    qed
  qed
qed

lemma discover_explored:
  assumes "discover cfg e k u nav ex = (new, ex')"
  shows "\<exists>n. ex' = ex @ take n (eligible (anchors e k) ex) \<and>
             (length ex < MAX_NUM_LINKS_TO_FOLLOW cfg \<longrightarrow> n \<le> MAX_NUM_LINKS_TO_FOLLOW cfg - length ex) \<and>
             (\<not> length ex < MAX_NUM_LINKS_TO_FOLLOW cfg \<longrightarrow> n = 0) \<and>
             (new = [] \<or> map getUrl new = take n (eligible (anchors e k) ex))"
proof (cases "succeeded nav \<and> length ex < MAX_NUM_LINKS_TO_FOLLOW cfg")
  case False
  with assms have "ex' = ex" "new = []" by (auto simp: discover_def)
  then show ?thesis by (intro exI [of _ 0]) simp
next
  case True
  obtain r ex1 where g: "grabLinks_loop cfg e k u (anchors e k) [] ex = (r, ex1)"
    by (cases "grabLinks_loop cfg e k u (anchors e k) [] ex")
  show ?thesis
  proof (cases r)
    case None
    with g True assms have m: "new = []" "ex' = ex1" by (auto simp: discover_def grabLinks_def)
    from grabLinks_loop_explored [OF g] True m show ?thesis by auto
  next
    case (Some ls)
    with g True assms have m: "new = ls" "ex' = ex1" by (auto simp: discover_def grabLinks_def)
    from grabLinks_loop_Some [of cfg e k u "anchors e k" "[]" ex ls ex1] g Some True m
    show ?thesis
      by (intro exI [of _ "MAX_NUM_LINKS_TO_FOLLOW cfg - length ex"]) auto
  qed
qed

text \<open>
  The number of iterations still possible: the links waiting, and the room left under
  the cap.
\<close>

definition potential :: "config \<Rightarrow> state \<Rightarrow> nat" where
  "potential cfg s = length (synLinks s) + (MAX_NUM_LINKS_TO_FOLLOW cfg - length (exploredUrls s))"

lemma discover_potential:
  assumes "discover cfg e k u nav ex = (new, ex')"
  shows "length new + (MAX_NUM_LINKS_TO_FOLLOW cfg - length ex') \<le> MAX_NUM_LINKS_TO_FOLLOW cfg - length ex"
proof -
  from discover_explored [OF assms] obtain n where
    n: "ex' = ex @ take n (eligible (anchors e k) ex)"
       "length ex < MAX_NUM_LINKS_TO_FOLLOW cfg \<longrightarrow> n \<le> MAX_NUM_LINKS_TO_FOLLOW cfg - length ex"
       "\<not> length ex < MAX_NUM_LINKS_TO_FOLLOW cfg \<longrightarrow> n = 0"
       "new = [] \<or> map getUrl new = take n (eligible (anchors e k) ex)"
    by blast
  from n(4) have "length new \<le> length (take n (eligible (anchors e k) ex))"
    by (metis length_map list.size(3) order_refl zero_le)
  with n(1,2,3) show ?thesis by (cases "length ex < MAX_NUM_LINKS_TO_FOLLOW cfg") auto
qed

lemma iteration_Inr:
  assumes "iteration cfg e s = Inr s'"
  obtains l rest fileName cs l' ble new ex' where
    "synLinks s = l # rest"
    "getFileName e (getUrl l) ''loaded'' = Inr fileName"
    "prepare_page cfg e (count s + 1) = Inr cs"
    "process_link cfg e (count s + 1) fileName (getUrl l)
       (page_goto e (count s + 1) (getUrl l) (goto_options cfg)) l (brokenLinkError s) = (l', ble)"
    "discover cfg e (count s + 1) (getUrl l)
       (page_goto e (count s + 1) (getUrl l) (goto_options cfg)) (exploredUrls s) = (new, ex')"
    "s' = \<lparr> exploredUrls = ex', synLinks = rest @ new, count = count s + 1,
            brokenLinkError = ble,
            brokenLinkCheckerReport = addLink e (count s + 1) l' (brokenLinkCheckerReport s),
            calls = calls s @ cs @ [Goto (getUrl l)] \<rparr>"
  using assms
  by (auto simp: iteration_def Let_def split: list.splits sum.splits prod.splits)

lemma iteration_potential:
  assumes "iteration cfg e s = Inr s'"
  shows "potential cfg s' < potential cfg s"
proof -
  from assms obtain l rest fileName cs l' ble new ex' where
    *: "synLinks s = l # rest"
    "discover cfg e (count s + 1) (getUrl l)
       (page_goto e (count s + 1) (getUrl l) (goto_options cfg)) (exploredUrls s) = (new, ex')"
    "s' = \<lparr> exploredUrls = ex', synLinks = rest @ new, count = count s + 1,
            brokenLinkError = ble,
            brokenLinkCheckerReport = addLink e (count s + 1) l' (brokenLinkCheckerReport s),
            calls = calls s @ cs @ [Goto (getUrl l)] \<rparr>"
    by (rule iteration_Inr)
  from discover_potential [OF *(2)] *(1,3) show ?thesis
    by (simp add: potential_def)
qed

text \<open>
  The \<open>while\<close> loop of lines 207 to 308. An error that leaves the body leaves the loop.
\<close>

function crawl_loop :: "config \<Rightarrow> env \<Rightarrow> state \<Rightarrow> thrown + state" where
  "crawl_loop cfg e s =
     (if synLinks s = [] then Inr s
      else (case iteration cfg e s of
              Inl err \<Rightarrow> Inl err
            | Inr s' \<Rightarrow> crawl_loop cfg e s'))"
  by pat_completeness auto
termination
  by (relation "measure (\<lambda>(cfg, e, s). potential cfg s)") (auto simp: iteration_potential)


declare crawl_loop.simps [simp del]

text \<open>
  The same loop with a budget of tests of its condition: \<open>None\<close> when the budget is
  spent before the loop has ended.
\<close>

fun crawl_fuel :: "nat \<Rightarrow> config \<Rightarrow> env \<Rightarrow> state \<Rightarrow> (thrown + state) option" where
  "crawl_fuel 0 cfg e s = None"
| "crawl_fuel (Suc n) cfg e s =
     (if synLinks s = [] then Some (Inr s)
      else (case iteration cfg e s of
              Inl err \<Rightarrow> Some (Inl err)
            | Inr s' \<Rightarrow> crawl_fuel n cfg e s'))"

text \<open>
  The controller: the loop, then lines 324 to 332. \<open>canaryError\<close> is still \<open>null\<close> after
  the loop, since every assignment to it inside the loop is commented out. The result is
  the error thrown, \<open>None\<close> when the function returns. (\<open>synthetics.addReport\<close> sits in a
  \<open>try\<close> with an empty \<open>catch\<close>; \<open>log.info\<close> and the first \<open>synthetics.getPage\<close> are
  taken to return.)
\<close>

definition webCrawlerController :: "config \<Rightarrow> env \<Rightarrow> thrown option" where
  "webCrawlerController cfg e =
     (case crawl_loop cfg e (initial_state cfg) of
        Inl err \<Rightarrow> Some err
      | Inr s \<Rightarrow>
          (let canaryError = (None :: string option);
               total = getTotalBrokenLinks (brokenLinkCheckerReport s);
               canaryError' =
                 (if total \<noteq> 0 then
                    (let brokenLinkError' =
                           toString_nat total @ '' broken link(s) detected. ''
                             @ toString_nullable (brokenLinkError s)
                     in (case canaryError of
                           Some c \<Rightarrow> Some (brokenLinkError' @ '' '' @ c)
                         | None \<Rightarrow> Some brokenLinkError'))
                  else canaryError)
           in (case canaryError' of
                 Some c \<Rightarrow> if c \<noteq> [] then Some (CanaryError c) else None
               | None \<Rightarrow> None)))"

text \<open>The states a crawl passes through at the head of its loop.\<close>

inductive reachable :: "config \<Rightarrow> env \<Rightarrow> state \<Rightarrow> bool" for cfg :: config and e :: env where
  start: "reachable cfg e (initial_state cfg)"
| step: "reachable cfg e s \<Longrightarrow> iteration cfg e s = Inr s' \<Longrightarrow> reachable cfg e s'"

definition navigated :: "call list \<Rightarrow> string list" where
  "navigated cs = concat (map (\<lambda>c. case c of Goto u \<Rightarrow> [u] | CloseLaunch \<Rightarrow> [] | GotoBlank \<Rightarrow> []) cs)"

section \<open>Invariants of the crawl\<close>

text \<open>A link as the queue holds it: nothing recorded about its navigation yet.\<close>

definition fresh :: "link \<Rightarrow> bool" where
  "fresh l = (failureReason l = None \<and> statusCode l = None \<and> statusText l = None)"

lemma fresh_SyntheticsLink [simp]: "fresh (SyntheticsLink u)"
  by (simp add: fresh_def SyntheticsLink_def)

lemma fresh_grabbed [simp]:
  "fresh (addScreenshotResult shot (withText t (withParentUrl p (SyntheticsLink u))))"
  by (simp add: fresh_def addScreenshotResult_def withText_def withParentUrl_def SyntheticsLink_def)

lemma grabLinks_loop_fresh:
  "grabLinks_loop cfg e k src es g ex = (Some g', ex') \<Longrightarrow> list_all fresh g \<Longrightarrow> list_all fresh g'"
proof (induction es arbitrary: g ex)
  case Nil
  then show ?case by simp
next
  case (Cons a es)
  show ?case
  proof (cases a)
    case EvaluateThrows
    with Cons.prems show ?thesis by simp
  next
    case (Anchor h t rt)
    show ?thesis
    proof (cases "grab_condition (trim h) ex")
      case False
      with Cons.prems Anchor have "grabLinks_loop cfg e k src es g ex = (Some g', ex')"
        by (simp add: Let_def)
      from Cons.IH [OF this Cons.prems(2)] show ?thesis .
    next
      case True
      show ?thesis
      proof (cases "source_screenshot cfg e k (trim h) rt")
        case None
        with Cons.prems True Anchor show ?thesis by (simp add: Let_def)
      next
        case (Some shot)
        let ?g1 = "g @ [addScreenshotResult shot (withText (trim t) (withParentUrl src (SyntheticsLink (trim h))))]"
        have f1: "list_all fresh ?g1" using Cons.prems(2) by simp
        show ?thesis
        proof (cases "length (ex @ [trim h]) \<ge> MAX_NUM_LINKS_TO_FOLLOW cfg")
          case True
          with Cons.prems \<open>grab_condition (trim h) ex\<close> Anchor Some have "g' = ?g1"
            by (simp add: Let_def)
          with f1 show ?thesis by simp
        next
          case False
          from False Cons.prems \<open>grab_condition (trim h) ex\<close> Anchor Some
          have "grabLinks_loop cfg e k src es ?g1 (ex @ [trim h]) = (Some g', ex')"
            by (simp add: Let_def)
          from Cons.IH [OF this f1] show ?thesis .
        qed
      qed
    qed
  qed
qed

lemma discover_fresh:
  assumes "discover cfg e k u nav ex = (new, ex')"
  shows "list_all fresh new"
proof (cases "succeeded nav \<and> length ex < MAX_NUM_LINKS_TO_FOLLOW cfg")
  case False
  with assms show ?thesis by (auto simp: discover_def)
next
  case True
  obtain r ex1 where g: "grabLinks_loop cfg e k u (anchors e k) [] ex = (r, ex1)"
    by (cases "grabLinks_loop cfg e k u (anchors e k) [] ex")
  show ?thesis
  proof (cases r)
    case None
    with g True assms show ?thesis by (auto simp: discover_def grabLinks_def)
  next
    case (Some ls)
    with g True assms have "new = ls" by (auto simp: discover_def grabLinks_def)
    with grabLinks_loop_fresh [of cfg e k u "anchors e k" "[]" ex ls ex1] g Some show ?thesis by simp
  qed
qed

lemma queue_fresh: "reachable cfg e s \<Longrightarrow> list_all fresh (synLinks s)"
proof (induction rule: reachable.induct)
  case start
  then show ?case by (simp add: initial_state_def list_all_iff)
next
  case (step s s')
  from step.hyps(2) obtain l rest fileName cs l' ble new ex' where
    *: "synLinks s = l # rest"
    "discover cfg e (count s + 1) (getUrl l)
       (page_goto e (count s + 1) (getUrl l) (goto_options cfg)) (exploredUrls s) = (new, ex')"
    "s' = \<lparr> exploredUrls = ex', synLinks = rest @ new, count = count s + 1,
            brokenLinkError = ble,
            brokenLinkCheckerReport = addLink e (count s + 1) l' (brokenLinkCheckerReport s),
            calls = calls s @ cs @ [Goto (getUrl l)] \<rparr>"
    by (rule iteration_Inr)
  from discover_fresh [OF *(2)] step.IH *(1,3) show ?case by simp
qed

text \<open>What lines 243 to 279 do to a link, case by case.\<close>

lemma process_link_throws:
  "process_link cfg e k f u (NavThrows err) l ble =
     (withFailureReason err l, Some (''Failed to load url: '' @ u @ ''. '' @ err))"
  by (simp add: process_link_def after_goto_def classify_def)

lemma process_link_null:
  "process_link cfg e k f u NavNull l ble =
     (withFailureReason ''Received null or undefined response'' l,
      Some (''Failed to receive network response for url: '' @ u))"
  by (simp add: process_link_def after_goto_def classify_def)

lemma process_link_getUrl:
  "process_link cfg e k f u nav l ble = (l', ble') \<Longrightarrow> getUrl l' = getUrl l"
  by (cases nav)
     (auto simp: process_link_def after_goto_def classify_def Let_def withFailureReason_def
        withStatusCode_def withStatusText_def addScreenshotResult_def split: if_splits)

lemma process_link_failure:
  "process_link cfg e k f u nav l ble = (l', ble') \<Longrightarrow> failureReason l = None \<Longrightarrow>
   (failureReason l' \<noteq> None \<longrightarrow> ble' \<noteq> None) \<and> (ble \<noteq> None \<longrightarrow> ble' \<noteq> None)"
  by (cases nav)
     (auto simp: process_link_def after_goto_def classify_def Let_def withFailureReason_def
        withStatusCode_def withStatusText_def addScreenshotResult_def split: if_splits)

lemma failure_has_detail:
  "reachable cfg e s \<Longrightarrow>
   (\<exists>l \<in> set (brokenLinkCheckerReport s). failureReason l \<noteq> None) \<longrightarrow> brokenLinkError s \<noteq> None"
proof (induction rule: reachable.induct)
  case start
  then show ?case by (simp add: initial_state_def)
next
  case (step s s')
  from step.hyps(2) obtain l rest fileName cs l' ble new ex' where
    *: "synLinks s = l # rest"
    "process_link cfg e (count s + 1) fileName (getUrl l)
       (page_goto e (count s + 1) (getUrl l) (goto_options cfg)) l (brokenLinkError s) = (l', ble)"
    "s' = \<lparr> exploredUrls = ex', synLinks = rest @ new, count = count s + 1,
            brokenLinkError = ble,
            brokenLinkCheckerReport = addLink e (count s + 1) l' (brokenLinkCheckerReport s),
            calls = calls s @ cs @ [Goto (getUrl l)] \<rparr>"
    by (rule iteration_Inr)
  from queue_fresh [OF step.hyps(1)] *(1) have "failureReason l = None"
    by (simp add: fresh_def)
  from process_link_failure [OF *(2) this] step.IH *(3) show ?case
    by (auto simp: addLink_def split: option.splits)
qed

lemma crawl_loop_reachable:
  "reachable cfg e s \<Longrightarrow> crawl_loop cfg e s = Inr s' \<Longrightarrow> reachable cfg e s' \<and> synLinks s' = []"
proof (induction cfg e s rule: crawl_loop.induct)
  case (1 cfg e s)
  show ?case
  proof (cases "synLinks s = []")
    case True
    with "1.prems" show ?thesis by (simp add: crawl_loop.simps [of cfg e s])
  next
    case False
    show ?thesis
    proof (cases "iteration cfg e s")
      case (Inl err)
      with False "1.prems" show ?thesis by (simp add: crawl_loop.simps [of cfg e s])
    next
      case (Inr s1)
      with False "1.prems" have c: "crawl_loop cfg e s1 = Inr s'"
        by (simp add: crawl_loop.simps [of cfg e s])
      from "1.prems"(1) Inr have "reachable cfg e s1" by (rule reachable.step)
      from "1.IH" [OF False Inr this c] show ?thesis .
    qed
  qed
qed

lemma crawl_loop_from_reachable:
  "reachable cfg e s \<Longrightarrow> crawl_loop cfg e (initial_state cfg) = crawl_loop cfg e s"
proof (induction rule: reachable.induct)
  case start
  show ?case by simp
next
  case (step s s')
  from step.hyps(2) have "synLinks s \<noteq> []" by (auto simp: iteration_def)
  with step.hyps(2) have "crawl_loop cfg e s = crawl_loop cfg e s'"
    by (simp add: crawl_loop.simps [of cfg e s])
  with step.IH show ?case by simp
qed

lemma crawl_fuel_enough:
  "potential cfg s < n \<Longrightarrow> crawl_fuel n cfg e s = Some (crawl_loop cfg e s)"
proof (induction n arbitrary: s)
  case 0
  then show ?case by simp
next
  case (Suc n)
  show ?case
  proof (cases "synLinks s = []")
    case True
    then show ?thesis by (simp add: crawl_loop.simps [of cfg e s])
  next
    case False
    show ?thesis
    proof (cases "iteration cfg e s")
      case (Inl err)
      with False show ?thesis by (simp add: crawl_loop.simps [of cfg e s])
    next
      case (Inr s1)
      from iteration_potential [OF Inr] Suc.prems have "potential cfg s1 < n" by simp
      from Suc.IH [OF this] False Inr show ?thesis
        by (simp add: crawl_loop.simps [of cfg e s])
    qed
  qed
qed

text \<open>The calls on the browser session that are navigations to a link.\<close>

lemma navigated_append [simp]: "navigated (xs @ ys) = navigated xs @ navigated ys"
  by (simp add: navigated_def)

lemma navigated_Goto [simp]: "navigated [Goto u] = [u]"
  by (simp add: navigated_def)

lemma navigated_Nil [simp]: "navigated [] = []"
  by (simp add: navigated_def)

lemma prepare_page_calls:
  "prepare_page cfg e k = Inr cs \<Longrightarrow>
   cs = (case session_action cfg k of Relaunch \<Rightarrow> [CloseLaunch] | ResetPage \<Rightarrow> [GotoBlank] | UseAsIs \<Rightarrow> [])"
  by (auto simp: prepare_page_def split: session_action.splits option.splits)

lemma prepare_page_navigated: "prepare_page cfg e k = Inr cs \<Longrightarrow> navigated cs = []"
  by (auto simp: prepare_page_def navigated_def split: session_action.splits option.splits)

lemma discover_new_urls:
  assumes "discover cfg e k u nav ex = (new, ex')"
  shows "distinct (map getUrl new) \<and> set (map getUrl new) \<inter> set ex = {}
         \<and> set (map getUrl new) \<subseteq> set ex' \<and> set ex \<subseteq> set ex'
         \<and> (length ex \<le> MAX_NUM_LINKS_TO_FOLLOW cfg \<longrightarrow> length ex' \<le> MAX_NUM_LINKS_TO_FOLLOW cfg)"
proof -
  from discover_explored [OF assms] obtain n where
    n: "ex' = ex @ take n (eligible (anchors e k) ex)"
       "length ex < MAX_NUM_LINKS_TO_FOLLOW cfg \<longrightarrow> n \<le> MAX_NUM_LINKS_TO_FOLLOW cfg - length ex"
       "\<not> length ex < MAX_NUM_LINKS_TO_FOLLOW cfg \<longrightarrow> n = 0"
       "new = [] \<or> map getUrl new = take n (eligible (anchors e k) ex)"
    by blast
  define el where "el = eligible (anchors e k) ex"
  define N where "N = map getUrl new"
  from eligible_fresh [of "anchors e k" ex]
  have f: "set el \<inter> set ex = {}" "distinct el" by (simp_all add: el_def)
  have t: "distinct (take n el)" "set (take n el) \<inter> set ex = {}"
    using f set_take_subset [of n el] by auto
  from n(4) have N: "N = [] \<or> N = take n el" by (auto simp: N_def el_def)
  from n(1) have e: "ex' = ex @ take n el" by (simp add: el_def)
  from N t have a: "distinct N" "set N \<inter> set ex = {}" by auto
  from N e have b: "set N \<subseteq> set ex'" by auto
  from e have c: "set ex \<subseteq> set ex'" by simp
  from e n(2,3) have d: "length ex \<le> MAX_NUM_LINKS_TO_FOLLOW cfg \<longrightarrow> length ex' \<le> MAX_NUM_LINKS_TO_FOLLOW cfg"
    by (cases "length ex < MAX_NUM_LINKS_TO_FOLLOW cfg") auto
  from a b c d have "distinct N \<and> set N \<inter> set ex = {} \<and> set N \<subseteq> set ex' \<and> set ex \<subseteq> set ex'
         \<and> (length ex \<le> MAX_NUM_LINKS_TO_FOLLOW cfg \<longrightarrow> length ex' \<le> MAX_NUM_LINKS_TO_FOLLOW cfg)"
    by blast
  then show ?thesis unfolding N_def .
qed

lemma addLink_urls:
  "map getUrl (addLink e k l entries) = map getUrl entries @ [getUrl l]
   \<or> addLink e k l entries = entries"
  by (simp add: addLink_def split: option.splits)

lemma reachable_urls:
  "reachable cfg e s \<Longrightarrow>
     set (map getUrl (brokenLinkCheckerReport s @ synLinks s)) \<subseteq> set (exploredUrls s)
   \<and> (distinct (URL_LIST cfg) \<longrightarrow> distinct (map getUrl (brokenLinkCheckerReport s @ synLinks s)))
   \<and> (length (URL_LIST cfg) \<le> MAX_NUM_LINKS_TO_FOLLOW cfg \<longrightarrow>
        length (exploredUrls s) \<le> MAX_NUM_LINKS_TO_FOLLOW cfg)"
proof (induction rule: reachable.induct)
  case start
  show ?case by (simp add: initial_state_def comp_def SyntheticsLink_def)
next
  case (step s s')
  from step.hyps(2) obtain l rest fileName cs l' ble new ex' where
    *: "synLinks s = l # rest"
    "process_link cfg e (count s + 1) fileName (getUrl l)
       (page_goto e (count s + 1) (getUrl l) (goto_options cfg)) l (brokenLinkError s) = (l', ble)"
    "discover cfg e (count s + 1) (getUrl l)
       (page_goto e (count s + 1) (getUrl l) (goto_options cfg)) (exploredUrls s) = (new, ex')"
    "s' = \<lparr> exploredUrls = ex', synLinks = rest @ new, count = count s + 1,
            brokenLinkError = ble,
            brokenLinkCheckerReport = addLink e (count s + 1) l' (brokenLinkCheckerReport s),
            calls = calls s @ cs @ [Goto (getUrl l)] \<rparr>"
    by (rule iteration_Inr)
  define R where "R = map getUrl (brokenLinkCheckerReport s)"
  define Q where "Q = map getUrl rest"
  define N where "N = map getUrl new"
  define R' where "R' = map getUrl (addLink e (count s + 1) l' (brokenLinkCheckerReport s))"
  define X where "X = exploredUrls s"
  have u: "getUrl l' = getUrl l" using *(2) by (rule process_link_getUrl)
  from discover_new_urls [OF *(3)] have
    d: "distinct N" "set N \<inter> set X = {}" "set N \<subseteq> set ex'" "set X \<subseteq> set ex'"
       "length X \<le> MAX_NUM_LINKS_TO_FOLLOW cfg \<longrightarrow> length ex' \<le> MAX_NUM_LINKS_TO_FOLLOW cfg"
    unfolding N_def X_def by blast+
  from step.IH *(1) have
    i: "set (R @ getUrl l # Q) \<subseteq> set X"
       "distinct (URL_LIST cfg) \<longrightarrow> distinct (R @ getUrl l # Q)"
       "length (URL_LIST cfg) \<le> MAX_NUM_LINKS_TO_FOLLOW cfg \<longrightarrow> length X \<le> MAX_NUM_LINKS_TO_FOLLOW cfg"
    by (simp_all add: R_def Q_def X_def)
  have r: "R' = R @ [getUrl l] \<or> R' = R"
    using addLink_urls [of e "count s + 1" l' "brokenLinkCheckerReport s"] u
    by (auto simp: R'_def R_def)
  from r have rs: "set R' \<subseteq> insert (getUrl l) (set R)" by auto
  from i(1) have iq: "insert (getUrl l) (set R) \<union> set Q \<subseteq> set X" by simp
  have "set R' \<union> set Q \<union> set N \<subseteq> set ex'"
    using rs iq d(3,4) by blast
  then have a: "set (R' @ Q @ N) \<subseteq> set ex'" by simp
  have b: "distinct (URL_LIST cfg) \<longrightarrow> distinct (R' @ Q @ N)"
  proof
    assume "distinct (URL_LIST cfg)"
    with i(2) have dq: "distinct (R @ getUrl l # Q)" by simp
    have nq: "set N \<inter> (insert (getUrl l) (set R) \<union> set Q) = {}" using d(2) iq by blast
    from r show "distinct (R' @ Q @ N)"
    proof
      assume "R' = R @ [getUrl l]"
      with dq nq d(1) show ?thesis by auto
    next
      assume "R' = R"
      with dq nq d(1) show ?thesis by auto
    qed
  qed
  have s': "map getUrl (brokenLinkCheckerReport s' @ synLinks s') = R' @ Q @ N"
           "exploredUrls s' = ex'"
    using *(4) by (simp_all add: R'_def Q_def N_def)
  from a b i(3) d(5) show ?case unfolding s' by blast
qed


lemma crawl_loop_done: "synLinks s = [] \<Longrightarrow> crawl_loop cfg e s = Inr s"
  by (simp add: crawl_loop.simps [of cfg e s])

lemma crawl_loop_next: "iteration cfg e s = Inr s' \<Longrightarrow> crawl_loop cfg e s = crawl_loop cfg e s'"
  by (auto simp: crawl_loop.simps [of cfg e s] iteration_def)

lemma crawl_loop_abort: "iteration cfg e s = Inl err \<Longrightarrow> synLinks s \<noteq> [] \<Longrightarrow> crawl_loop cfg e s = Inl err"
  by (simp add: crawl_loop.simps [of cfg e s])

lemma broken_has_failure:
  "getTotalBrokenLinks entries \<noteq> 0 \<Longrightarrow> \<exists>l \<in> set entries. failureReason l \<noteq> None"
proof -
  assume "getTotalBrokenLinks entries \<noteq> 0"
  then have "filter has_failure entries \<noteq> []" by (simp add: getTotalBrokenLinks_def)
  then obtain l where "l \<in> set entries" "has_failure l"
    by (metis filter_False)
  then show ?thesis by (auto simp: has_failure_def split: option.splits)
qed

text \<open>With seeds that differ, the explored addresses differ.\<close>

lemma discover_distinct:
  assumes "discover cfg e k u nav ex = (new, ex')" and "distinct ex"
  shows "distinct ex'"
proof -
  from discover_explored [OF assms(1)] obtain n where
    n: "ex' = ex @ take n (eligible (anchors e k) ex)" by blast
  define el where "el = eligible (anchors e k) ex"
  from eligible_fresh [of "anchors e k" ex]
  have f: "set el \<inter> set ex = {}" "distinct el" by (simp_all add: el_def)
  have "distinct (take n el)" "set (take n el) \<inter> set ex = {}"
    using f set_take_subset [of n el] by auto
  with assms(2) have "distinct (ex @ take n el)" by auto
  with n show ?thesis by (simp add: el_def)
qed

lemma reachable_explored_distinct:
  "reachable cfg e s \<Longrightarrow> distinct (URL_LIST cfg) \<Longrightarrow> distinct (exploredUrls s)"
proof (induction rule: reachable.induct)
  case start
  then show ?case by (simp add: initial_state_def)
next
  case (step s s')
  from step.hyps(2) obtain l rest fileName cs l' ble new ex' where
    *: "synLinks s = l # rest"
    "discover cfg e (count s + 1) (getUrl l)
       (page_goto e (count s + 1) (getUrl l) (goto_options cfg)) (exploredUrls s) = (new, ex')"
    "s' = \<lparr> exploredUrls = ex', synLinks = rest @ new, count = count s + 1,
            brokenLinkError = ble,
            brokenLinkCheckerReport = addLink e (count s + 1) l' (brokenLinkCheckerReport s),
            calls = calls s @ cs @ [Goto (getUrl l)] \<rparr>"
    by (rule iteration_Inr)
  from discover_distinct [OF *(2)] step.IH step.prems *(3) show ?case by simp
qed

text \<open>The remainder test of line 218, read as a statement about multiples.\<close>

lemma rem_is_zero_multiple:
  "rem_is_zero (Suc n) r = (\<exists>j>0. Suc n = j * r)"
proof
  assume "rem_is_zero (Suc n) r"
  then have "r dvd Suc n" by (simp add: rem_is_zero_def mod_eq_0_iff_dvd)
  then obtain j where "Suc n = r * j" unfolding dvd_def by blast
  then have j: "Suc n = j * r" by (simp only: mult.commute)
  then have "0 < j" by (cases j) simp_all
  with j show "\<exists>j>0. Suc n = j * r" by blast
next
  assume "\<exists>j>0. Suc n = j * r"
  then obtain j where j: "0 < j" "Suc n = j * r" by blast
  then have "r \<noteq> 0" by (metis mult_0_right nat.distinct(1))
  with j show "rem_is_zero (Suc n) r" by (simp add: rem_is_zero_def)
qed

section \<open>The failure details of a run\<close>

text \<open>
  The value that an outcome makes lines 248, 252 and 268 assign to \<open>brokenLinkError\<close>
  for the link at \<open>nav_url\<close>; \<open>None\<close> for an outcome after which none of them runs.
\<close>

definition failure_detail :: "string \<Rightarrow> navigation \<Rightarrow> string option" where
  "failure_detail nav_url nav =
     (case nav of
        NavThrows err \<Rightarrow> Some (''Failed to load url: '' @ nav_url @ ''. '' @ err)
      | NavNull \<Rightarrow> Some (''Failed to receive network response for url: '' @ nav_url)
      | NavResponse st t \<Rightarrow>
          if truthy st \<and> status_lt st 400 then None
          else Some (''Failed to load url: '' @ nav_url @ ''. '' @ ''Status code: ''
                       @ toString_status st @ '' '' @ t))"

text \<open>
  The details of a run, one per navigation: navigation number \<open>k\<close> (from 1) is made
  with \<open>count = k\<close>. The most recent detail is the last one that is there.
\<close>

definition details :: "config \<Rightarrow> env \<Rightarrow> string list \<Rightarrow> string option list" where
  "details cfg e urls =
     map (\<lambda>(k, u). failure_detail u (page_goto e (Suc k) u (goto_options cfg))) (enumerate 0 urls)"

definition most_recent :: "string option list \<Rightarrow> string option" where
  "most_recent ds =
     (let given = filter (\<lambda>d. d \<noteq> None) ds
      in if given = [] then None else last given)"

lemma most_recent_snoc:
  "most_recent (ds @ [d]) = (case d of Some x \<Rightarrow> Some x | None \<Rightarrow> most_recent ds)"
  by (cases d) (simp_all add: most_recent_def)

lemma details_snoc:
  "details cfg e (urls @ [u])
     = details cfg e urls @ [failure_detail u (page_goto e (Suc (length urls)) u (goto_options cfg))]"
  by (simp add: details_def enumerate_append_eq)

lemma process_link_detail:
  "process_link cfg e k f u nav l ble = (l', ble') \<Longrightarrow>
   ble' = (case failure_detail u nav of Some d \<Rightarrow> Some d | None \<Rightarrow> ble)"
  by (cases nav)
     (auto simp: process_link_def after_goto_def classify_def failure_detail_def Let_def
        split: if_splits)

lemma iteration_detail:
  assumes "iteration cfg e s = Inr s'" and "synLinks s = l # rest"
  shows "brokenLinkError s' =
     (case failure_detail (getUrl l) (page_goto e (count s + 1) (getUrl l) (goto_options cfg)) of
        Some d \<Rightarrow> Some d
      | None \<Rightarrow> brokenLinkError s)"
proof -
  from assms(1) obtain l0 rest0 fileName cs l' ble new ex' where
    *: "synLinks s = l0 # rest0"
    "process_link cfg e (count s + 1) fileName (getUrl l0)
       (page_goto e (count s + 1) (getUrl l0) (goto_options cfg)) l0 (brokenLinkError s) = (l', ble)"
    "s' = \<lparr> exploredUrls = ex', synLinks = rest0 @ new, count = count s + 1,
            brokenLinkError = ble,
            brokenLinkCheckerReport = addLink e (count s + 1) l' (brokenLinkCheckerReport s),
            calls = calls s @ cs @ [Goto (getUrl l0)] \<rparr>"
    by (rule iteration_Inr)
  from *(1) assms(2) have "l0 = l" by simp
  with process_link_detail [OF *(2)] *(3) show ?thesis by simp
qed

lemma reachable_details:
  "reachable cfg e s \<Longrightarrow>
     length (navigated (calls s)) = count s
   \<and> brokenLinkError s = most_recent (details cfg e (navigated (calls s)))"
proof (induction rule: reachable.induct)
  case start
  show ?case by (simp add: initial_state_def details_def most_recent_def)
next
  case (step s s')
  from step.hyps(2) obtain l rest fileName cs l' ble new ex' where
    *: "synLinks s = l # rest"
    "prepare_page cfg e (count s + 1) = Inr cs"
    "s' = \<lparr> exploredUrls = ex', synLinks = rest @ new, count = count s + 1,
            brokenLinkError = ble,
            brokenLinkCheckerReport = addLink e (count s + 1) l' (brokenLinkCheckerReport s),
            calls = calls s @ cs @ [Goto (getUrl l)] \<rparr>"
    by (rule iteration_Inr)
  have c: "navigated cs = []" using *(2) by (rule prepare_page_navigated)
  from *(3) c have n: "navigated (calls s') = navigated (calls s) @ [getUrl l]"
    and k: "count s' = count s + 1" by simp_all
  from step.IH have len: "length (navigated (calls s)) = count s"
    and ih: "brokenLinkError s = most_recent (details cfg e (navigated (calls s)))" by simp_all
  from iteration_detail [OF step.hyps(2) *(1)] ih len
  have "brokenLinkError s' = most_recent (details cfg e (navigated (calls s')))"
    by (simp add: n details_snoc most_recent_snoc split: option.splits)
  with n k len show ?case by simp
qed

lemma discover_not_succeeded:
  "\<not> succeeded nav \<Longrightarrow> discover cfg e k u nav ex = ([], ex)"
  by (simp add: discover_def)

section \<open>Example runs\<close>

text \<open>
  Collaborators that never throw: every address answers as \<open>nav\<close> says, and the page
  loaded in iteration \<open>k\<close> shows the elements \<open>pages k\<close>.
\<close>

definition quiet_env :: "(string \<Rightarrow> navigation) \<Rightarrow> (nat \<Rightarrow> element list) \<Rightarrow> env" where
  "quiet_env nav pages =
     \<lparr> pathname = (\<lambda>u. Some ''/''),
       page_goto = (\<lambda>k u opts. nav u),
       blank_goto = (\<lambda>k opts. NavNull),
       anchors = pages,
       relaunch_error = (\<lambda>k. None),
       synthetics_takeScreenshot = (\<lambda>k f sfx. Inr f),
       addLink_error = (\<lambda>k. None) \<rparr>"

definition answered :: "int \<Rightarrow> string \<Rightarrow> link" where
  "answered n t =
     \<lparr> getUrl = ''https://www.mydomain.com/'', parentUrl = None, linkText = None,
       statusCode = Some n, statusText = Some t,
       failureReason = (if n < 400 then None else Some (''Status code: '' @ toString_int n @ '' '' @ t)),
       screenshotResults = [] \<rparr>"

lemmas eval_defs =
  iteration_def initial_state_def source_config_def quiet_env_def getFileName_def
  prepare_page_def session_action_def rem_is_zero_def resetPage_def process_link_def after_goto_def
  classify_def discover_def grabLinks_def succeeded_def addLink_def goto_options_def
  SyntheticsLink_def withStatusCode_def withStatusText_def withFailureReason_def
  withParentUrl_def withText_def addScreenshotResult_def takeScreenshot_def
  grab_condition_def source_screenshot_def startsWith_def trim_def is_space_def
  is_space2_def is_space3_def last_segment_def s3_char_def Let_def

lemma first_iteration_answered:
  "n \<noteq> 0 \<Longrightarrow>
   iteration source_config (quiet_env (\<lambda>u. NavResponse (Some n) t) (\<lambda>k. [])) (initial_state source_config)
     = Inr \<lparr> exploredUrls = [''https://www.mydomain.com/''], synLinks = [], count = 1,
             brokenLinkError =
               (if n < 400 then None
                else Some (''Failed to load url: https://www.mydomain.com/. Status code: ''
                             @ toString_int n @ '' '' @ t)),
             brokenLinkCheckerReport = [answered n t],
             calls = [Goto ''https://www.mydomain.com/''] \<rparr>"
  by (simp add: eval_defs answered_def)

lemma single_crawl_answered:
  "n \<noteq> 0 \<Longrightarrow>
   crawl_loop source_config (quiet_env (\<lambda>u. NavResponse (Some n) t) (\<lambda>k. [])) (initial_state source_config)
     = Inr \<lparr> exploredUrls = [''https://www.mydomain.com/''], synLinks = [], count = 1,
             brokenLinkError =
               (if n < 400 then None
                else Some (''Failed to load url: https://www.mydomain.com/. Status code: ''
                             @ toString_int n @ '' '' @ t)),
             brokenLinkCheckerReport = [answered n t],
             calls = [Goto ''https://www.mydomain.com/''] \<rparr>"
  by (simp add: crawl_loop_next [OF first_iteration_answered] crawl_loop_done)

text \<open>A run of two equal seeds that answer 200 and show no anchors.\<close>

definition twice_config :: config where
  "twice_config = source_config\<lparr>URL_LIST := [''https://a.example/'', ''https://a.example/'']\<rparr>"

definition plain_link :: "string \<Rightarrow> link" where
  "plain_link u =
     \<lparr> getUrl = u, parentUrl = None, linkText = None, statusCode = Some 200,
       statusText = Some ''OK'', failureReason = None, screenshotResults = [] \<rparr>"

definition twice_state1 :: state where
  "twice_state1 =
     \<lparr> exploredUrls = [''https://a.example/'', ''https://a.example/''],
       synLinks = [SyntheticsLink ''https://a.example/''], count = 1, brokenLinkError = None,
       brokenLinkCheckerReport = [plain_link ''https://a.example/''],
       calls = [Goto ''https://a.example/''] \<rparr>"

definition twice_state2 :: state where
  "twice_state2 =
     \<lparr> exploredUrls = [''https://a.example/'', ''https://a.example/''],
       synLinks = [], count = 2, brokenLinkError = None,
       brokenLinkCheckerReport = [plain_link ''https://a.example/'', plain_link ''https://a.example/''],
       calls = [Goto ''https://a.example/'', GotoBlank, Goto ''https://a.example/''] \<rparr>"


lemma twice_iteration2:
  "iteration twice_config (quiet_env (\<lambda>u. NavResponse (Some 200) ''OK'') (\<lambda>k. []))
     twice_state1 = Inr twice_state2"
  by (simp add: eval_defs twice_config_def twice_state1_def twice_state2_def plain_link_def)


text \<open>
  A run with the cap at three: the seed page shows an address twice (once with white
  space around it), a \<open>mailto:\<close> address and two more addresses, the first of them
  after a no-break space.
\<close>

definition cap_config :: config where
  "cap_config = source_config\<lparr>URL_LIST := [''http://s/''], MAX_NUM_LINKS_TO_FOLLOW := 3\<rparr>"

definition cap_env :: env where
  "cap_env = quiet_env (\<lambda>u. NavResponse (Some 200) ''OK'')
     (\<lambda>k. [Anchor '' http://s/a '' ''first'' False,
           Anchor ''http://s/a'' ''again'' False,
           Anchor ''mailto:x'' ''mail'' False,
           Anchor (CHR 0xC2 # CHR 0xA0 # ''http://s/b'') ''second'' False,
           Anchor ''http://s/c'' ''third'' False])"

definition grabbed_link :: "string \<Rightarrow> string \<Rightarrow> link" where
  "grabbed_link u t =
     \<lparr> getUrl = u, parentUrl = Some ''http://s/'', linkText = Some t, statusCode = None,
       statusText = None, failureReason = None, screenshotResults = [None] \<rparr>"

definition cap_state1 :: state where
  "cap_state1 =
     \<lparr> exploredUrls = [''http://s/'', ''http://s/a'', ''http://s/b''],
       synLinks = [grabbed_link ''http://s/a'' ''first'', grabbed_link ''http://s/b'' ''second''],
       count = 1, brokenLinkError = None,
       brokenLinkCheckerReport = [plain_link ''http://s/''],
       calls = [Goto ''http://s/''] \<rparr>"

lemma cap_iteration1: "iteration cap_config cap_env (initial_state cap_config) = Inr cap_state1"
  by (simp add: eval_defs cap_config_def cap_env_def cap_state1_def plain_link_def grabbed_link_def)

lemma cap_eligible:
  "eligible (anchors cap_env 1) [''http://s/''] = [''http://s/a'', ''http://s/b'', ''http://s/c'']"
  by (simp add: cap_env_def quiet_env_def grab_condition_def startsWith_def trim_def is_space_def
        is_space2_def is_space3_def Let_def)

text \<open>
  Collaborators of which all but the navigation fail: blank pages, screenshots,
  evaluation in the page and appending to the report throw; \<open>relaunch\<close> says when
  closing and launching the browser throws.
\<close>

definition failing_env :: "(nat \<Rightarrow> string option) \<Rightarrow> env" where
  "failing_env relaunch =
     \<lparr> pathname = (\<lambda>u. Some ''/''),
       page_goto = (\<lambda>k u opts. NavResponse (Some 200) ''OK''),
       blank_goto = (\<lambda>k opts. NavThrows ''blank page timed out''),
       anchors = (\<lambda>k. [EvaluateThrows]),
       relaunch_error = relaunch,
       synthetics_takeScreenshot = (\<lambda>k f sfx. Inl ''no screenshot''),
       addLink_error = (\<lambda>k. Some ''not added'') \<rparr>"

definition capture_config :: config where
  "capture_config = twice_config\<lparr>CAPTURE_DESTINATION_PAGE_SCREENSHOT_ON_SUCCESS := True\<rparr>"

text \<open>
  A run of three seeds: the first gets no response, the second answers 500, the third
  answers 200.
\<close>

definition three_config :: config where
  "three_config = source_config\<lparr>URL_LIST := [''http://s/a'', ''http://s/b'', ''http://s/c'']\<rparr>"

definition three_env :: env where
  "three_env = quiet_env
     (\<lambda>u. if u = ''http://s/a'' then NavNull
          else if u = ''http://s/b'' then NavResponse (Some 500) ''Server Error''
          else NavResponse (Some 200) ''OK'')
     (\<lambda>k. [])"

definition three_state1 :: state where
  "three_state1 =
     \<lparr> exploredUrls = [''http://s/a'', ''http://s/b'', ''http://s/c''],
       synLinks = [SyntheticsLink ''http://s/b'', SyntheticsLink ''http://s/c''],
       count = 1,
       brokenLinkError = Some ''Failed to receive network response for url: http://s/a'',
       brokenLinkCheckerReport =
         [(SyntheticsLink ''http://s/a'')\<lparr>failureReason := Some ''Received null or undefined response''\<rparr>],
       calls = [Goto ''http://s/a''] \<rparr>"

definition three_state2 :: state where
  "three_state2 =
     \<lparr> exploredUrls = [''http://s/a'', ''http://s/b'', ''http://s/c''],
       synLinks = [SyntheticsLink ''http://s/c''],
       count = 2,
       brokenLinkError = Some ''Failed to load url: http://s/b. Status code: 500 Server Error'',
       brokenLinkCheckerReport =
         [(SyntheticsLink ''http://s/a'')\<lparr>failureReason := Some ''Received null or undefined response''\<rparr>,
          (SyntheticsLink ''http://s/b'')\<lparr>statusCode := Some 500, statusText := Some ''Server Error'',
             failureReason := Some ''Status code: 500 Server Error''\<rparr>],
       calls = [Goto ''http://s/a'', GotoBlank, Goto ''http://s/b''] \<rparr>"

definition three_state3 :: state where
  "three_state3 =
     \<lparr> exploredUrls = [''http://s/a'', ''http://s/b'', ''http://s/c''],
       synLinks = [],
       count = 3,
       brokenLinkError = Some ''Failed to load url: http://s/b. Status code: 500 Server Error'',
       brokenLinkCheckerReport =
         [(SyntheticsLink ''http://s/a'')\<lparr>failureReason := Some ''Received null or undefined response''\<rparr>,
          (SyntheticsLink ''http://s/b'')\<lparr>statusCode := Some 500, statusText := Some ''Server Error'',
             failureReason := Some ''Status code: 500 Server Error''\<rparr>,
          plain_link ''http://s/c''],
       calls = [Goto ''http://s/a'', GotoBlank, Goto ''http://s/b'', GotoBlank, Goto ''http://s/c''] \<rparr>"

lemma toString_int_500: "toString_int 500 = ''500''"
  by (simp add: toString_int_def toString_nat_def decimal_digits.simps digit_def)

lemma three_iteration1: "iteration three_config three_env (initial_state three_config) = Inr three_state1"
  by (simp add: eval_defs three_config_def three_env_def three_state1_def)

lemma three_iteration2: "iteration three_config three_env three_state1 = Inr three_state2"
  by (simp add: eval_defs three_config_def three_env_def three_state1_def three_state2_def
        toString_int_500)

lemma three_iteration3: "iteration three_config three_env three_state2 = Inr three_state3"
  by (simp add: eval_defs three_config_def three_env_def three_state2_def three_state3_def
        plain_link_def)

lemma three_crawl: "crawl_loop three_config three_env (initial_state three_config) = Inr three_state3"
  by (simp add: crawl_loop_next [OF three_iteration1] crawl_loop_next [OF three_iteration2]
        crawl_loop_next [OF three_iteration3] crawl_loop_done three_state3_def)

text \<open>The seed page of the run with the cap at three, answering with status 0.\<close>

definition zero_env :: env where
  "zero_env = cap_env\<lparr>page_goto := (\<lambda>k u opts. NavResponse (Some 0) ''x'')\<rparr>"

definition zero_state1 :: state where
  "zero_state1 =
     \<lparr> exploredUrls = [''http://s/''],
       synLinks = [],
       count = 1,
       brokenLinkError = Some ''Failed to load url: http://s/. Status code: 0 x'',
       brokenLinkCheckerReport =
         [(SyntheticsLink ''http://s/'')\<lparr>statusCode := Some 0, statusText := Some ''x'',
            failureReason := Some ''Status code: 0 x''\<rparr>],
       calls = [Goto ''http://s/''] \<rparr>"

lemma toString_int_0: "toString_int 0 = ''0''"
  by (simp add: toString_int_def toString_nat_def decimal_digits.simps digit_def)

lemma zero_iteration1: "iteration cap_config zero_env (initial_state cap_config) = Inr zero_state1"
  by (simp add: eval_defs cap_config_def cap_env_def zero_env_def zero_state1_def toString_int_0)

section \<open>The claims\<close>

text \<open>
  C1 (the code departs from the claim). With enforcement on and the domain of the source
  file, a document request for an address outside the domain is continued: both
  branches of lines 236 and 237 call \<open>request.continue()\<close>. For every configuration,
  every document request is continued.
\<close>

theorem on_request_off_domain_continues:
  "MUST_INCLUDE_DOMAIN source_config
   \<and> resourceType \<lparr>resourceType = ''document'', request_url = ''https://www.example.org/''\<rparr> = ''document''
   \<and> \<not> js_includes ''https://www.example.org/'' (DOMAIN source_config)
   \<and> on_request source_config
        \<lparr>resourceType = ''document'', request_url = ''https://www.example.org/''\<rparr> = Continued"
  by (simp add: on_request_def source_config_def)

lemma on_request_document:
  "resourceType r = ''document'' \<Longrightarrow> on_request cfg r = Continued"
  by (simp add: on_request_def)

text \<open>
  C2. In any crawl, when the navigation of the dequeued link answers with a status other
  than zero, the entry that the report receives keeps the address and carries the status
  code and the status text; below 400 it has no failure reason, from 400 upwards its
  failure reason is \<open>Status code: <code> <text>\<close>. The example run shows 399 on one
  side and 400 on the other.
\<close>

theorem classification_at_400:
  assumes "reachable cfg e s"
    and "synLinks s = l # rest"
    and "iteration cfg e s = Inr s'"
    and "page_goto e (count s + 1) (getUrl l) (goto_options cfg) = NavResponse (Some n) t"
    and "n \<noteq> 0"
    and "addLink_error e (count s + 1) = None"
  shows "\<exists>l'. brokenLinkCheckerReport s' = brokenLinkCheckerReport s @ [l']
           \<and> getUrl l' = getUrl l \<and> statusCode l' = Some n \<and> statusText l' = Some t
           \<and> failureReason l' =
               (if n < 400 then None else Some (''Status code: '' @ toString_int n @ '' '' @ t))"
proof -
  from assms(3) obtain l0 rest0 fileName cs l' ble new ex' where
    *: "synLinks s = l0 # rest0"
    "process_link cfg e (count s + 1) fileName (getUrl l0)
       (page_goto e (count s + 1) (getUrl l0) (goto_options cfg)) l0 (brokenLinkError s) = (l', ble)"
    "s' = \<lparr> exploredUrls = ex', synLinks = rest0 @ new, count = count s + 1,
            brokenLinkError = ble,
            brokenLinkCheckerReport = addLink e (count s + 1) l' (brokenLinkCheckerReport s),
            calls = calls s @ cs @ [Goto (getUrl l0)] \<rparr>"
    by (rule iteration_Inr)
  from *(1) assms(2) have l0: "l0 = l" by simp
  from queue_fresh [OF assms(1)] assms(2) have f: "failureReason l = None"
    by (simp add: fresh_def)
  from *(2) l0 assms(4) have
    p: "process_link cfg e (count s + 1) fileName (getUrl l) (NavResponse (Some n) t) l (brokenLinkError s) = (l', ble)"
    by simp
  have r: "brokenLinkCheckerReport s' = brokenLinkCheckerReport s @ [l']"
    using *(3) assms(6) by (simp add: addLink_def)
  have u: "getUrl l' = getUrl l" using p by (rule process_link_getUrl)
  from p assms(5) f have
    "statusCode l' = Some n \<and> statusText l' = Some t
     \<and> failureReason l' = (if n < 400 then None else Some (''Status code: '' @ toString_int n @ '' '' @ t))"
    by (auto simp: process_link_def after_goto_def classify_def Let_def withFailureReason_def
          withStatusCode_def withStatusText_def addScreenshotResult_def split: if_splits)
  with r u show ?thesis by blast
qed

theorem classification_at_400_witness:
  "(\<exists>l'. [answered 399 ''x''] = [] @ [l'] \<and> statusCode l' = Some 399 \<and> statusText l' = Some ''x''
          \<and> failureReason l' = None)
   \<and> (\<exists>l'. [answered 400 ''Bad Request''] = [] @ [l'] \<and> statusCode l' = Some 400
          \<and> statusText l' = Some ''Bad Request''
          \<and> failureReason l' = Some ''Status code: 400 Bad Request'')"
proof -
  let ?C = source_config
  let ?S = "initial_state source_config"
  let ?l = "SyntheticsLink ''https://www.mydomain.com/''"
  have r: "reachable ?C e ?S" for e by (rule reachable.start)
  have q: "synLinks ?S = ?l # []" by (simp add: initial_state_def source_config_def)
  have b: "brokenLinkCheckerReport ?S = []" by (simp add: initial_state_def)
  have t400: "toString_int 400 = ''400''"
    by (simp add: toString_int_def toString_nat_def decimal_digits.simps digit_def)
  have 1: "\<exists>l'. [answered 399 ''x''] = [] @ [l'] \<and> statusCode l' = Some 399 \<and> statusText l' = Some ''x''
          \<and> failureReason l' = None"
    using classification_at_400 [OF r q first_iteration_answered [of 399 "''x''"], of 399 "''x''"]
    by (simp add: b quiet_env_def)
  have 2: "\<exists>l'. [answered 400 ''Bad Request''] = [] @ [l'] \<and> statusCode l' = Some 400
          \<and> statusText l' = Some ''Bad Request''
          \<and> failureReason l' = Some ''Status code: 400 Bad Request''"
    using classification_at_400 [OF r q first_iteration_answered [of 400 "''Bad Request''"], of 400 "''Bad Request''"]
    by (simp add: b quiet_env_def t400)
  from 1 2 show ?thesis by blast
qed

text \<open>
  C3. When the loop has ended without an error leaving it, the controller throws exactly
  when the report counts a broken link. What it throws is the count, the words
  \<open>broken link(s) detected.\<close> and the value that \<open>brokenLinkError\<close> holds at the end,
  which is never \<open>null\<close> in that case; with no broken link the controller returns.
  That value is the most recent failure detail of the run: every iteration that meets a
  thrown error, a missing response or a status that is falsy or not below 400 sets
  \<open>brokenLinkError\<close> to the detail of its own link, and every other iteration leaves it
  as it was. In the example run of three seeds the first two fail and the third
  succeeds: the payload carries the detail of the second.
\<close>

theorem exit_contract:
  assumes "crawl_loop cfg e (initial_state cfg) = Inr s"
  shows "(getTotalBrokenLinks (brokenLinkCheckerReport s) = 0 \<longrightarrow> webCrawlerController cfg e = None)
       \<and> (getTotalBrokenLinks (brokenLinkCheckerReport s) \<noteq> 0 \<longrightarrow>
            (\<exists>detail. brokenLinkError s = Some detail
               \<and> most_recent (details cfg e (navigated (calls s))) = Some detail
               \<and> webCrawlerController cfg e =
                   Some (CanaryError (toString_nat (getTotalBrokenLinks (brokenLinkCheckerReport s))
                                        @ '' broken link(s) detected. '' @ detail))))
       \<and> length (navigated (calls s)) = count s
       \<and> brokenLinkError s = most_recent (details cfg e (navigated (calls s)))
       \<and> (\<forall>s0 s1 q rest.
             iteration cfg e s0 = Inr s1 \<and> synLinks s0 = q # rest \<longrightarrow>
               brokenLinkError s1 =
                 (case page_goto e (count s0 + 1) (getUrl q) (goto_options cfg) of
                    NavThrows err \<Rightarrow> Some (''Failed to load url: '' @ getUrl q @ ''. '' @ err)
                  | NavNull \<Rightarrow> Some (''Failed to receive network response for url: '' @ getUrl q)
                  | NavResponse st t \<Rightarrow>
                      if truthy st \<and> status_lt st 400 then brokenLinkError s0
                      else Some (''Failed to load url: '' @ getUrl q @ ''. '' @ ''Status code: ''
                                   @ toString_status st @ '' '' @ t)))"
proof -
  from crawl_loop_reachable [OF reachable.start assms] have r: "reachable cfg e s" by simp
  from reachable_details [OF r] have
    len: "length (navigated (calls s)) = count s"
    and rec: "brokenLinkError s = most_recent (details cfg e (navigated (calls s)))"
    by simp_all
  have a: "getTotalBrokenLinks (brokenLinkCheckerReport s) = 0 \<longrightarrow> webCrawlerController cfg e = None"
    using assms by (simp add: webCrawlerController_def)
  have b: "getTotalBrokenLinks (brokenLinkCheckerReport s) \<noteq> 0 \<longrightarrow>
            (\<exists>detail. brokenLinkError s = Some detail
               \<and> most_recent (details cfg e (navigated (calls s))) = Some detail
               \<and> webCrawlerController cfg e =
                   Some (CanaryError (toString_nat (getTotalBrokenLinks (brokenLinkCheckerReport s))
                                        @ '' broken link(s) detected. '' @ detail)))"
  proof
    assume nz: "getTotalBrokenLinks (brokenLinkCheckerReport s) \<noteq> 0"
    from broken_has_failure [OF nz] failure_has_detail [OF r]
    obtain detail where d: "brokenLinkError s = Some detail" by auto
    with assms nz have "webCrawlerController cfg e =
        Some (CanaryError (toString_nat (getTotalBrokenLinks (brokenLinkCheckerReport s))
                             @ '' broken link(s) detected. '' @ detail))"
      by (simp add: webCrawlerController_def Let_def)
    with d rec show "\<exists>detail. brokenLinkError s = Some detail
               \<and> most_recent (details cfg e (navigated (calls s))) = Some detail
               \<and> webCrawlerController cfg e =
                   Some (CanaryError (toString_nat (getTotalBrokenLinks (brokenLinkCheckerReport s))
                                        @ '' broken link(s) detected. '' @ detail))"
      by simp
  qed
  have c: "\<forall>s0 s1 q rest.
             iteration cfg e s0 = Inr s1 \<and> synLinks s0 = q # rest \<longrightarrow>
               brokenLinkError s1 =
                 (case page_goto e (count s0 + 1) (getUrl q) (goto_options cfg) of
                    NavThrows err \<Rightarrow> Some (''Failed to load url: '' @ getUrl q @ ''. '' @ err)
                  | NavNull \<Rightarrow> Some (''Failed to receive network response for url: '' @ getUrl q)
                  | NavResponse st t \<Rightarrow>
                      if truthy st \<and> status_lt st 400 then brokenLinkError s0
                      else Some (''Failed to load url: '' @ getUrl q @ ''. '' @ ''Status code: ''
                                   @ toString_status st @ '' '' @ t))"
  proof (intro allI impI)
    fix s0 s1 q rest
    assume h: "iteration cfg e s0 = Inr s1 \<and> synLinks s0 = q # rest"
    then have i: "iteration cfg e s0 = Inr s1" and q: "synLinks s0 = q # rest" by simp_all
    from iteration_detail [OF i q]
    show "brokenLinkError s1 =
                 (case page_goto e (count s0 + 1) (getUrl q) (goto_options cfg) of
                    NavThrows err \<Rightarrow> Some (''Failed to load url: '' @ getUrl q @ ''. '' @ err)
                  | NavNull \<Rightarrow> Some (''Failed to receive network response for url: '' @ getUrl q)
                  | NavResponse st t \<Rightarrow>
                      if truthy st \<and> status_lt st 400 then brokenLinkError s0
                      else Some (''Failed to load url: '' @ getUrl q @ ''. '' @ ''Status code: ''
                                   @ toString_status st @ '' '' @ t))"
      by (auto simp: failure_detail_def split: navigation.splits if_splits)
  qed
  from a b len rec c show ?thesis by blast
qed

theorem exit_contract_witness:
  "webCrawlerController source_config (quiet_env (\<lambda>u. NavResponse (Some 404) ''Not Found'') (\<lambda>k. []))
     = Some (CanaryError
         ''1 broken link(s) detected. Failed to load url: https://www.mydomain.com/. Status code: 404 Not Found'')
   \<and> webCrawlerController source_config (quiet_env (\<lambda>u. NavResponse (Some 200) ''OK'') (\<lambda>k. [])) = None
   \<and> details three_config three_env (navigated (calls three_state3))
       = [Some ''Failed to receive network response for url: http://s/a'',
          Some ''Failed to load url: http://s/b. Status code: 500 Server Error'',
          None]
   \<and> webCrawlerController three_config three_env
       = Some (CanaryError
           ''2 broken link(s) detected. Failed to load url: http://s/b. Status code: 500 Server Error'')
   \<and> brokenLinkError three_state1 = Some ''Failed to receive network response for url: http://s/a''
   \<and> brokenLinkError three_state2 = Some ''Failed to load url: http://s/b. Status code: 500 Server Error''
   \<and> brokenLinkError three_state3 = brokenLinkError three_state2"
proof -
  have t: "toString_int 404 = ''404''" "toString_nat (Suc 0) = ''1''" "toString_nat 2 = ''2''"
    by (simp_all add: toString_int_def toString_nat_def decimal_digits.simps digit_def)
  have a: "getTotalBrokenLinks [answered 404 ''Not Found''] = 1"
          "getTotalBrokenLinks [answered 200 ''OK''] = 0"
    by (simp_all add: getTotalBrokenLinks_def has_failure_def answered_def)
  have 1: "webCrawlerController source_config (quiet_env (\<lambda>u. NavResponse (Some 404) ''Not Found'') (\<lambda>k. []))
     = Some (CanaryError
         ''1 broken link(s) detected. Failed to load url: https://www.mydomain.com/. Status code: 404 Not Found'')"
    using exit_contract [OF single_crawl_answered [of 404 "''Not Found''"]]
    by (simp add: a t)
  have 2: "webCrawlerController source_config (quiet_env (\<lambda>u. NavResponse (Some 200) ''OK'') (\<lambda>k. [])) = None"
    using exit_contract [OF single_crawl_answered [of 200 "''OK''"]]
    by (simp add: a)
  have d: "details three_config three_env (navigated (calls three_state3))
       = [Some ''Failed to receive network response for url: http://s/a'',
          Some ''Failed to load url: http://s/b. Status code: 500 Server Error'',
          None]"
    by (simp add: details_def three_state3_def navigated_def three_env_def quiet_env_def
          failure_detail_def toString_int_500)
  have n: "getTotalBrokenLinks (brokenLinkCheckerReport three_state3) = 2"
    by (simp add: getTotalBrokenLinks_def has_failure_def three_state3_def SyntheticsLink_def
          plain_link_def)
  from exit_contract [OF three_crawl] n
  obtain detail where
    m: "most_recent (details three_config three_env (navigated (calls three_state3))) = Some detail"
       "webCrawlerController three_config three_env
          = Some (CanaryError (toString_nat 2 @ '' broken link(s) detected. '' @ detail))"
    by auto
  from m(1) have "detail = ''Failed to load url: http://s/b. Status code: 500 Server Error''"
    by (simp add: d most_recent_def)
  with m(2) have 3: "webCrawlerController three_config three_env
       = Some (CanaryError
           ''2 broken link(s) detected. Failed to load url: http://s/b. Status code: 500 Server Error'')"
    by (simp add: t)
  from exit_contract [OF three_crawl] have
    step: "\<And>s0 s1 q rest. iteration three_config three_env s0 = Inr s1 \<and> synLinks s0 = q # rest \<Longrightarrow>
               brokenLinkError s1 =
                 (case page_goto three_env (count s0 + 1) (getUrl q) (goto_options three_config) of
                    NavThrows err \<Rightarrow> Some (''Failed to load url: '' @ getUrl q @ ''. '' @ err)
                  | NavNull \<Rightarrow> Some (''Failed to receive network response for url: '' @ getUrl q)
                  | NavResponse st t \<Rightarrow>
                      if truthy st \<and> status_lt st 400 then brokenLinkError s0
                      else Some (''Failed to load url: '' @ getUrl q @ ''. '' @ ''Status code: ''
                                   @ toString_status st @ '' '' @ t))"
    by blast
  have 4: "brokenLinkError three_state1 = Some ''Failed to receive network response for url: http://s/a''"
    using step [of "initial_state three_config" three_state1 "SyntheticsLink ''http://s/a''"
                   "[SyntheticsLink ''http://s/b'', SyntheticsLink ''http://s/c'']"] three_iteration1
    by (simp add: initial_state_def three_config_def source_config_def three_env_def quiet_env_def
          SyntheticsLink_def)
  have 5: "brokenLinkError three_state2 = Some ''Failed to load url: http://s/b. Status code: 500 Server Error''"
    using step [of three_state1 three_state2 "SyntheticsLink ''http://s/b''"
                   "[SyntheticsLink ''http://s/c'']"] three_iteration2
    by (simp add: three_state1_def three_env_def quiet_env_def SyntheticsLink_def toString_int_500)
  have 6: "brokenLinkError three_state3 = brokenLinkError three_state2"
    using step [of three_state2 three_state3 "SyntheticsLink ''http://s/c''" "[]"] three_iteration3
    by (simp add: three_env_def quiet_env_def SyntheticsLink_def three_state2_def)
  from 1 2 d 3 4 5 6 show ?thesis by blast
qed

text \<open>
  C4 (corrected). A response whose status is \<open>undefined\<close> or zero is not treated as a
  missing response. It fails the test of line 259 and takes the branch of line 265:
  the link gets the status, the status text and the failure reason
  \<open>Status code: <status> <text>\<close>, and \<open>brokenLinkError\<close> is set from it; the failure
  reason differs from the one a missing response gives. The iteration grabs no links:
  the queue only loses the link and the explored addresses stay as they were, whatever
  anchors the page shows.
\<close>

theorem falsy_status_takes_broken_branch:
  assumes "\<not> truthy st"
    and "process_link cfg e k fileName nav_url (NavResponse st t) l ble = (l', ble')"
  shows "\<not> succeeded (NavResponse st t)
       \<and> getUrl l' = getUrl l
       \<and> statusCode l' = st \<and> statusText l' = Some t
       \<and> failureReason l' = Some (''Status code: '' @ toString_status st @ '' '' @ t)
       \<and> ble' = Some (''Failed to load url: '' @ nav_url @ ''. '' @ ''Status code: ''
                         @ toString_status st @ '' '' @ t)
       \<and> failureReason l' \<noteq> failureReason (fst (process_link cfg e k fileName nav_url NavNull l ble))
       \<and> (iteration cfg e s = Inr s' \<and> synLinks s = q # rest
            \<and> page_goto e (count s + 1) (getUrl q) (goto_options cfg) = NavResponse st t
          \<longrightarrow> synLinks s' = rest
              \<and> exploredUrls s' = exploredUrls s
              \<and> brokenLinkError s' = Some (''Failed to load url: '' @ getUrl q @ ''. '' @ ''Status code: ''
                                             @ toString_status st @ '' '' @ t)
              \<and> (\<exists>entry. brokenLinkCheckerReport s' = addLink e (count s + 1) entry (brokenLinkCheckerReport s)
                    \<and> getUrl entry = getUrl q
                    \<and> statusCode entry = st \<and> statusText entry = Some t
                    \<and> failureReason entry = Some (''Status code: '' @ toString_status st @ '' '' @ t)))"
proof -
  have link: "\<not> succeeded (NavResponse st t)
       \<and> getUrl l' = getUrl l
       \<and> statusCode l' = st \<and> statusText l' = Some t
       \<and> failureReason l' = Some (''Status code: '' @ toString_status st @ '' '' @ t)
       \<and> ble' = Some (''Failed to load url: '' @ nav_url @ ''. '' @ ''Status code: ''
                         @ toString_status st @ '' '' @ t)
       \<and> failureReason l' \<noteq> failureReason (fst (process_link cfg e k fileName nav_url NavNull l ble))"
    using assms
    by (auto simp: process_link_def after_goto_def classify_def succeeded_def Let_def
          withFailureReason_def withStatusCode_def withStatusText_def addScreenshotResult_def
          split: if_splits)
  have iter: "iteration cfg e s = Inr s' \<and> synLinks s = q # rest
            \<and> page_goto e (count s + 1) (getUrl q) (goto_options cfg) = NavResponse st t
          \<longrightarrow> synLinks s' = rest
              \<and> exploredUrls s' = exploredUrls s
              \<and> brokenLinkError s' = Some (''Failed to load url: '' @ getUrl q @ ''. '' @ ''Status code: ''
                                             @ toString_status st @ '' '' @ t)
              \<and> (\<exists>entry. brokenLinkCheckerReport s' = addLink e (count s + 1) entry (brokenLinkCheckerReport s)
                    \<and> getUrl entry = getUrl q
                    \<and> statusCode entry = st \<and> statusText entry = Some t
                    \<and> failureReason entry = Some (''Status code: '' @ toString_status st @ '' '' @ t))"
  proof
    assume h: "iteration cfg e s = Inr s' \<and> synLinks s = q # rest
            \<and> page_goto e (count s + 1) (getUrl q) (goto_options cfg) = NavResponse st t"
    then have i: "iteration cfg e s = Inr s'" by simp
    from i obtain l0 rest0 f cs entry ble0 new ex' where
      *: "synLinks s = l0 # rest0"
      "process_link cfg e (count s + 1) f (getUrl l0)
         (page_goto e (count s + 1) (getUrl l0) (goto_options cfg)) l0 (brokenLinkError s) = (entry, ble0)"
      "discover cfg e (count s + 1) (getUrl l0)
         (page_goto e (count s + 1) (getUrl l0) (goto_options cfg)) (exploredUrls s) = (new, ex')"
      "s' = \<lparr> exploredUrls = ex', synLinks = rest0 @ new, count = count s + 1,
              brokenLinkError = ble0,
              brokenLinkCheckerReport = addLink e (count s + 1) entry (brokenLinkCheckerReport s),
              calls = calls s @ cs @ [Goto (getUrl l0)] \<rparr>"
      by (rule iteration_Inr)
    from *(1) h have eq: "l0 = q" "rest0 = rest" by simp_all
    from h eq have nav: "page_goto e (count s + 1) (getUrl l0) (goto_options cfg) = NavResponse st t"
      by simp
    from assms(1) have ns: "\<not> succeeded (NavResponse st t)" by (simp add: succeeded_def)
    from *(3) nav discover_not_succeeded [OF ns] have d: "new = []" "ex' = exploredUrls s"
      by simp_all
    from *(2) nav eq assms(1) have
      p: "getUrl entry = getUrl q \<and> statusCode entry = st \<and> statusText entry = Some t
          \<and> failureReason entry = Some (''Status code: '' @ toString_status st @ '' '' @ t)
          \<and> ble0 = Some (''Failed to load url: '' @ getUrl q @ ''. '' @ ''Status code: ''
                            @ toString_status st @ '' '' @ t)"
      by (auto simp: process_link_def after_goto_def classify_def Let_def
            withFailureReason_def withStatusCode_def withStatusText_def addScreenshotResult_def
            split: if_splits)
    from *(4) d eq p show "synLinks s' = rest
              \<and> exploredUrls s' = exploredUrls s
              \<and> brokenLinkError s' = Some (''Failed to load url: '' @ getUrl q @ ''. '' @ ''Status code: ''
                                             @ toString_status st @ '' '' @ t)
              \<and> (\<exists>entry. brokenLinkCheckerReport s' = addLink e (count s + 1) entry (brokenLinkCheckerReport s)
                    \<and> getUrl entry = getUrl q
                    \<and> statusCode entry = st \<and> statusText entry = Some t
                    \<and> failureReason entry = Some (''Status code: '' @ toString_status st @ '' '' @ t))"
      by auto
  qed
  from link iter show ?thesis by blast
qed

theorem falsy_status_takes_broken_branch_witness:
  "\<not> truthy None
   \<and> statusCode (fst (process_link source_config (quiet_env (\<lambda>u. NavNull) (\<lambda>k. [])) 1 ''index''
         ''https://www.mydomain.com/'' (NavResponse None ''x'')
         (SyntheticsLink ''https://www.mydomain.com/'') None)) = None
   \<and> failureReason (fst (process_link source_config (quiet_env (\<lambda>u. NavNull) (\<lambda>k. [])) 1 ''index''
         ''https://www.mydomain.com/'' (NavResponse None ''x'')
         (SyntheticsLink ''https://www.mydomain.com/'') None)) = Some ''Status code: undefined x''
   \<and> \<not> truthy (Some 0)
   \<and> length (anchors zero_env 1) = 5
   \<and> synLinks zero_state1 = []
   \<and> exploredUrls zero_state1 = exploredUrls (initial_state cap_config)
   \<and> brokenLinkError zero_state1 = Some ''Failed to load url: http://s/. Status code: 0 x''
   \<and> synLinks cap_state1 = [grabbed_link ''http://s/a'' ''first'', grabbed_link ''http://s/b'' ''second'']"
proof -
  let ?P = "process_link source_config (quiet_env (\<lambda>u. NavNull) (\<lambda>k. [])) 1 ''index''
         ''https://www.mydomain.com/'' (NavResponse None ''x'')
         (SyntheticsLink ''https://www.mydomain.com/'') None"
  have a: "\<not> truthy None" by simp
  have b: "statusCode (fst ?P) = None \<and> failureReason (fst ?P) = Some ''Status code: undefined x''"
    using falsy_status_takes_broken_branch [of None source_config "quiet_env (\<lambda>u. NavNull) (\<lambda>k. [])" 1
      "''index''" "''https://www.mydomain.com/''" "''x''" "SyntheticsLink ''https://www.mydomain.com/''"
      None "fst ?P" "snd ?P"]
    by simp
  let ?Q = "process_link cap_config zero_env 1 ''index'' ''http://s/'' (NavResponse (Some 0) ''x'')
              (SyntheticsLink ''http://s/'') None"
  have z: "\<not> truthy (Some 0)" by simp
  have q: "synLinks (initial_state cap_config) = SyntheticsLink ''http://s/'' # []"
    by (simp add: initial_state_def cap_config_def)
  have g: "page_goto zero_env (count (initial_state cap_config) + 1) (getUrl (SyntheticsLink ''http://s/''))
             (goto_options cap_config) = NavResponse (Some 0) ''x''"
    by (simp add: zero_env_def)
  from falsy_status_takes_broken_branch [OF z, of cap_config zero_env 1 "''index''" "''http://s/''" "''x''"
         "SyntheticsLink ''http://s/''" None "fst ?Q" "snd ?Q"
         "initial_state cap_config" zero_state1 "SyntheticsLink ''http://s/''" "[]"]
       zero_iteration1 q g
  have c: "synLinks zero_state1 = []"
          "exploredUrls zero_state1 = exploredUrls (initial_state cap_config)"
          "brokenLinkError zero_state1 = Some ''Failed to load url: http://s/. Status code: 0 x''"
    by (simp_all add: SyntheticsLink_def toString_int_0)
  have d: "length (anchors zero_env 1) = 5"
    by (simp add: zero_env_def cap_env_def quiet_env_def)
  have e: "synLinks cap_state1 = [grabbed_link ''http://s/a'' ''first'', grabbed_link ''http://s/b'' ''second'']"
    by (simp add: cap_state1_def)
  from a b z c d e show ?thesis by blast
qed

text \<open>
  The claim as it was stated fails for a response with status 0: the link records the
  status and the reason \<open>Status code: 0 x\<close>, where a missing response records no status
  and the reason \<open>Received null or undefined response\<close>.
\<close>

theorem falsy_status_not_errored:
  "process_link source_config (quiet_env (\<lambda>u. NavNull) (\<lambda>k. [])) 1 ''index''
       ''https://www.mydomain.com/'' (NavResponse (Some 0) ''x'')
       (SyntheticsLink ''https://www.mydomain.com/'') None
     = (\<lparr> getUrl = ''https://www.mydomain.com/'', parentUrl = None, linkText = None,
          statusCode = Some 0, statusText = Some ''x'',
          failureReason = Some ''Status code: 0 x'', screenshotResults = [] \<rparr>,
        Some ''Failed to load url: https://www.mydomain.com/. Status code: 0 x'')
   \<and> process_link source_config (quiet_env (\<lambda>u. NavNull) (\<lambda>k. [])) 1 ''index''
       ''https://www.mydomain.com/'' NavNull
       (SyntheticsLink ''https://www.mydomain.com/'') None
     = (\<lparr> getUrl = ''https://www.mydomain.com/'', parentUrl = None, linkText = None,
          statusCode = None, statusText = None,
          failureReason = Some ''Received null or undefined response'', screenshotResults = [] \<rparr>,
        Some ''Failed to receive network response for url: https://www.mydomain.com/'')
   \<and> process_link source_config (quiet_env (\<lambda>u. NavNull) (\<lambda>k. [])) 1 ''index''
       ''https://www.mydomain.com/'' (NavResponse (Some 0) ''x'')
       (SyntheticsLink ''https://www.mydomain.com/'') None
     \<noteq> process_link source_config (quiet_env (\<lambda>u. NavNull) (\<lambda>k. [])) 1 ''index''
       ''https://www.mydomain.com/'' NavNull
       (SyntheticsLink ''https://www.mydomain.com/'') None"
proof -
  have t: "toString_int 0 = ''0''"
    by (simp add: toString_int_def toString_nat_def decimal_digits.simps digit_def)
  show ?thesis
    by (simp add: process_link_def after_goto_def classify_def source_config_def SyntheticsLink_def
          withFailureReason_def withStatusCode_def withStatusText_def Let_def t)
qed

text \<open>
  C5 (corrected). The seeds are neither deduplicated nor capped, so the claim needs them
  to differ and to fit under the cap. In every state of a crawl: if the seeds differ,
  no address occurs twice among the report entries and the waiting links, nor among the
  explored addresses; if there are at most \<open>MAX_NUM_LINKS_TO_FOLLOW\<close> seeds, there are
  never more explored addresses than that. A call of \<open>grabLinks\<close> below the cap that
  returns admits exactly the first \<open>MAX_NUM_LINKS_TO_FOLLOW - length exploredUrls\<close> of
  the addresses the page offers, no more, and the addresses a page offers are new and
  differ from each other.
\<close>

theorem dedup_and_cap:
  assumes "reachable cfg e s"
  shows "(distinct (URL_LIST cfg) \<longrightarrow>
            distinct (map getUrl (brokenLinkCheckerReport s @ synLinks s))
            \<and> distinct (exploredUrls s))
       \<and> (length (URL_LIST cfg) \<le> MAX_NUM_LINKS_TO_FOLLOW cfg \<longrightarrow>
            length (exploredUrls s) \<le> MAX_NUM_LINKS_TO_FOLLOW cfg)
       \<and> (\<forall>k u ex ls ex'.
             length ex < MAX_NUM_LINKS_TO_FOLLOW cfg \<and> grabLinks cfg e k u ex = (Some ls, ex') \<longrightarrow>
               ex' = ex @ take (MAX_NUM_LINKS_TO_FOLLOW cfg - length ex) (eligible (anchors e k) ex)
             \<and> map getUrl ls = take (MAX_NUM_LINKS_TO_FOLLOW cfg - length ex) (eligible (anchors e k) ex)
             \<and> length ex' = min (MAX_NUM_LINKS_TO_FOLLOW cfg) (length ex + length (eligible (anchors e k) ex)))
       \<and> (\<forall>es ex. distinct (eligible es ex) \<and> set (eligible es ex) \<inter> set ex = {})"
proof -
  from reachable_urls [OF assms] reachable_explored_distinct [OF assms] have
    a: "distinct (URL_LIST cfg) \<longrightarrow>
          distinct (map getUrl (brokenLinkCheckerReport s @ synLinks s)) \<and> distinct (exploredUrls s)"
    and b: "length (URL_LIST cfg) \<le> MAX_NUM_LINKS_TO_FOLLOW cfg \<longrightarrow>
            length (exploredUrls s) \<le> MAX_NUM_LINKS_TO_FOLLOW cfg"
    by blast+
  have c: "\<forall>k u ex ls ex'.
             length ex < MAX_NUM_LINKS_TO_FOLLOW cfg \<and> grabLinks cfg e k u ex = (Some ls, ex') \<longrightarrow>
               ex' = ex @ take (MAX_NUM_LINKS_TO_FOLLOW cfg - length ex) (eligible (anchors e k) ex)
             \<and> map getUrl ls = take (MAX_NUM_LINKS_TO_FOLLOW cfg - length ex) (eligible (anchors e k) ex)
             \<and> length ex' = min (MAX_NUM_LINKS_TO_FOLLOW cfg) (length ex + length (eligible (anchors e k) ex))"
  proof (intro allI impI)
    fix k u ex ls ex'
    assume h: "length ex < MAX_NUM_LINKS_TO_FOLLOW cfg \<and> grabLinks cfg e k u ex = (Some ls, ex')"
    then have g: "grabLinks_loop cfg e k u (anchors e k) [] ex = (Some ls, ex')"
      by (simp add: grabLinks_def)
    from grabLinks_loop_Some [OF g] h have
      r: "ex' = ex @ take (MAX_NUM_LINKS_TO_FOLLOW cfg - length ex) (eligible (anchors e k) ex)"
         "map getUrl ls = take (MAX_NUM_LINKS_TO_FOLLOW cfg - length ex) (eligible (anchors e k) ex)"
      by simp_all
    from r(1) have "length ex' = length ex
        + min (length (eligible (anchors e k) ex)) (MAX_NUM_LINKS_TO_FOLLOW cfg - length ex)"
      by simp
    with h have "length ex' = min (MAX_NUM_LINKS_TO_FOLLOW cfg) (length ex + length (eligible (anchors e k) ex))"
      by linarith
    with r show "ex' = ex @ take (MAX_NUM_LINKS_TO_FOLLOW cfg - length ex) (eligible (anchors e k) ex)
             \<and> map getUrl ls = take (MAX_NUM_LINKS_TO_FOLLOW cfg - length ex) (eligible (anchors e k) ex)
             \<and> length ex' = min (MAX_NUM_LINKS_TO_FOLLOW cfg) (length ex + length (eligible (anchors e k) ex))"
      by blast
  qed
  have d: "\<forall>es ex. distinct (eligible es ex) \<and> set (eligible es ex) \<inter> set ex = {}"
    using eligible_fresh by blast
  from a b c d show ?thesis by blast
qed

theorem dedup_and_cap_witness:
  "distinct (URL_LIST cap_config)
   \<and> length (URL_LIST cap_config) \<le> MAX_NUM_LINKS_TO_FOLLOW cap_config
   \<and> distinct (map getUrl (brokenLinkCheckerReport cap_state1 @ synLinks cap_state1))
   \<and> distinct (exploredUrls cap_state1)
   \<and> length (exploredUrls cap_state1) \<le> MAX_NUM_LINKS_TO_FOLLOW cap_config
   \<and> eligible (anchors cap_env 1) [''http://s/''] = [''http://s/a'', ''http://s/b'', ''http://s/c'']
   \<and> exploredUrls cap_state1 = [''http://s/''] @ take 2 [''http://s/a'', ''http://s/b'', ''http://s/c'']"
proof -
  have r: "reachable cap_config cap_env cap_state1"
    using reachable.start cap_iteration1 by (rule reachable.step)
  have h: "distinct (URL_LIST cap_config)"
          "length (URL_LIST cap_config) \<le> MAX_NUM_LINKS_TO_FOLLOW cap_config"
    by (simp_all add: cap_config_def)
  from dedup_and_cap [OF r] h have
    "distinct (map getUrl (brokenLinkCheckerReport cap_state1 @ synLinks cap_state1))"
    "distinct (exploredUrls cap_state1)"
    "length (exploredUrls cap_state1) \<le> MAX_NUM_LINKS_TO_FOLLOW cap_config"
    by blast+
  moreover have "exploredUrls cap_state1 = [''http://s/''] @ take 2 [''http://s/a'', ''http://s/b'', ''http://s/c'']"
    by (simp add: cap_state1_def)
  ultimately show ?thesis using h cap_eligible by blast
qed

text \<open>
  The claim as it was stated fails for two equal seeds under a cap of one: after seeding
  the queue holds the address twice and two addresses are explored.
\<close>

theorem seeds_escape_dedup_and_cap:
  "reachable (twice_config\<lparr>MAX_NUM_LINKS_TO_FOLLOW := 1\<rparr>)
     (quiet_env (\<lambda>u. NavResponse (Some 200) ''OK'') (\<lambda>k. []))
     (initial_state (twice_config\<lparr>MAX_NUM_LINKS_TO_FOLLOW := 1\<rparr>))
   \<and> synLinks (initial_state (twice_config\<lparr>MAX_NUM_LINKS_TO_FOLLOW := 1\<rparr>))
       = [SyntheticsLink ''https://a.example/'', SyntheticsLink ''https://a.example/'']
   \<and> \<not> distinct (map getUrl
         (brokenLinkCheckerReport (initial_state (twice_config\<lparr>MAX_NUM_LINKS_TO_FOLLOW := 1\<rparr>))
          @ synLinks (initial_state (twice_config\<lparr>MAX_NUM_LINKS_TO_FOLLOW := 1\<rparr>))))
   \<and> length (exploredUrls (initial_state (twice_config\<lparr>MAX_NUM_LINKS_TO_FOLLOW := 1\<rparr>))) = 2
   \<and> MAX_NUM_LINKS_TO_FOLLOW (twice_config\<lparr>MAX_NUM_LINKS_TO_FOLLOW := 1\<rparr>) = 1"
proof -
  have "reachable (twice_config\<lparr>MAX_NUM_LINKS_TO_FOLLOW := 1\<rparr>)
     (quiet_env (\<lambda>u. NavResponse (Some 200) ''OK'') (\<lambda>k. []))
     (initial_state (twice_config\<lparr>MAX_NUM_LINKS_TO_FOLLOW := 1\<rparr>))"
    by (rule reachable.start)
  then show ?thesis
    by (simp add: initial_state_def twice_config_def source_config_def SyntheticsLink_def)
qed

text \<open>
  C6. Before the link with \<open>count = k\<close> (for \<open>k = Suc n\<close>, as \<open>count\<close> is incremented
  before the test) the browser is relaunched exactly when \<open>k\<close> is a positive multiple of
  \<open>NUM_LINKS_TO_RELAUNCH_BROWSER\<close> other than \<open>MAX_NUM_LINKS_TO_FOLLOW\<close>; if not, the page
  is reset exactly when \<open>k \<noteq> 1\<close>; if not, nothing is done. With an interval of 5 and a
  cap of 12 the relaunches among the first twelve links are those before links 5 and
  10. An iteration makes exactly the call of its case and then navigates to the link.
  (An interval of 1 makes the first link a relaunch point, by the first case.)
\<close>

theorem relaunch_schedule:
  "(session_action cfg (Suc n) = Relaunch) =
     ((\<exists>j>0. Suc n = j * NUM_LINKS_TO_RELAUNCH_BROWSER cfg) \<and> Suc n \<noteq> MAX_NUM_LINKS_TO_FOLLOW cfg)
   \<and> (session_action cfg (Suc n) = ResetPage) =
     (\<not> ((\<exists>j>0. Suc n = j * NUM_LINKS_TO_RELAUNCH_BROWSER cfg) \<and> Suc n \<noteq> MAX_NUM_LINKS_TO_FOLLOW cfg)
      \<and> Suc n \<noteq> 1)
   \<and> (session_action cfg (Suc n) = UseAsIs) =
     (\<not> ((\<exists>j>0. Suc n = j * NUM_LINKS_TO_RELAUNCH_BROWSER cfg) \<and> Suc n \<noteq> MAX_NUM_LINKS_TO_FOLLOW cfg)
      \<and> Suc n = 1)
   \<and> filter (\<lambda>k. session_action
                   (cfg\<lparr>NUM_LINKS_TO_RELAUNCH_BROWSER := 5, MAX_NUM_LINKS_TO_FOLLOW := 12\<rparr>) k = Relaunch)
        [1, 2, 3, 4, 5, 6, 7, 8, 9, 10, 11, 12] = [5, 10]
   \<and> (iteration cfg e s = Inr s' \<longrightarrow>
        count s' = Suc (count s)
        \<and> (\<exists>l rest. synLinks s = l # rest
             \<and> calls s' = calls s
                  @ (case session_action cfg (Suc (count s)) of
                       Relaunch \<Rightarrow> [CloseLaunch]
                     | ResetPage \<Rightarrow> [GotoBlank]
                     | UseAsIs \<Rightarrow> [])
                  @ [Goto (getUrl l)]))"
proof -
  have a: "(session_action cfg (Suc n) = Relaunch) =
     ((\<exists>j>0. Suc n = j * NUM_LINKS_TO_RELAUNCH_BROWSER cfg) \<and> Suc n \<noteq> MAX_NUM_LINKS_TO_FOLLOW cfg)"
    unfolding rem_is_zero_multiple [symmetric] by (simp add: session_action_def)
  have b: "(session_action cfg (Suc n) = ResetPage) =
     (\<not> ((\<exists>j>0. Suc n = j * NUM_LINKS_TO_RELAUNCH_BROWSER cfg) \<and> Suc n \<noteq> MAX_NUM_LINKS_TO_FOLLOW cfg)
      \<and> Suc n \<noteq> 1)"
    unfolding rem_is_zero_multiple [symmetric] by (simp add: session_action_def)
  have c: "(session_action cfg (Suc n) = UseAsIs) =
     (\<not> ((\<exists>j>0. Suc n = j * NUM_LINKS_TO_RELAUNCH_BROWSER cfg) \<and> Suc n \<noteq> MAX_NUM_LINKS_TO_FOLLOW cfg)
      \<and> Suc n = 1)"
    unfolding rem_is_zero_multiple [symmetric] by (simp add: session_action_def)
  have d: "filter (\<lambda>k. session_action
                   (cfg\<lparr>NUM_LINKS_TO_RELAUNCH_BROWSER := 5, MAX_NUM_LINKS_TO_FOLLOW := 12\<rparr>) k = Relaunch)
        [1, 2, 3, 4, 5, 6, 7, 8, 9, 10, 11, 12] = [5, 10]"
    by (simp add: session_action_def rem_is_zero_def)
  have i: "iteration cfg e s = Inr s' \<longrightarrow>
        count s' = Suc (count s)
        \<and> (\<exists>l rest. synLinks s = l # rest
             \<and> calls s' = calls s
                  @ (case session_action cfg (Suc (count s)) of
                       Relaunch \<Rightarrow> [CloseLaunch]
                     | ResetPage \<Rightarrow> [GotoBlank]
                     | UseAsIs \<Rightarrow> [])
                  @ [Goto (getUrl l)])"
  proof
    assume "iteration cfg e s = Inr s'"
    then obtain l rest fileName cs l' ble new ex' where
      *: "synLinks s = l # rest"
      "prepare_page cfg e (count s + 1) = Inr cs"
      "s' = \<lparr> exploredUrls = ex', synLinks = rest @ new, count = count s + 1,
            brokenLinkError = ble,
            brokenLinkCheckerReport = addLink e (count s + 1) l' (brokenLinkCheckerReport s),
            calls = calls s @ cs @ [Goto (getUrl l)] \<rparr>"
      by (rule iteration_Inr)
    from prepare_page_calls [OF *(2)] *(1,3)
    show "count s' = Suc (count s)
        \<and> (\<exists>l rest. synLinks s = l # rest
             \<and> calls s' = calls s
                  @ (case session_action cfg (Suc (count s)) of
                       Relaunch \<Rightarrow> [CloseLaunch]
                     | ResetPage \<Rightarrow> [GotoBlank]
                     | UseAsIs \<Rightarrow> [])
                  @ [Goto (getUrl l)])"
      by simp
  qed
  from a b c d i show ?thesis by blast
qed

theorem relaunch_schedule_witness:
  "session_action source_config 5 = Relaunch
   \<and> session_action source_config 1 = UseAsIs
   \<and> session_action source_config 2 = ResetPage
   \<and> calls twice_state2 = calls twice_state1 @ [GotoBlank] @ [Goto ''https://a.example/'']"
proof -
  have m: "(\<exists>j>0. Suc 4 = j * NUM_LINKS_TO_RELAUNCH_BROWSER source_config)"
    by (rule exI [of _ 1]) (simp add: source_config_def)
  have n1: "\<not> (\<exists>j>0. Suc 0 = j * NUM_LINKS_TO_RELAUNCH_BROWSER source_config)"
    by (simp add: source_config_def)
  have n2: "\<not> (\<exists>j>0. Suc 1 = j * NUM_LINKS_TO_RELAUNCH_BROWSER source_config)"
  proof
    assume "\<exists>j>0. Suc 1 = j * NUM_LINKS_TO_RELAUNCH_BROWSER source_config"
    then obtain j :: nat where "0 < j" "Suc 1 = j * 5" by (auto simp: source_config_def)
    then show False by presburger
  qed
  have a: "session_action source_config 5 = Relaunch"
    using relaunch_schedule [of source_config 4] m by (simp add: source_config_def)
  have b: "session_action source_config 1 = UseAsIs"
    using relaunch_schedule [of source_config 0] n1 by simp
  have c: "session_action source_config 2 = ResetPage"
    using relaunch_schedule [of source_config 1] n2 by (simp add: numeral_2_eq_2)
  have c': "session_action twice_config (Suc (Suc 0)) = ResetPage"
    by (simp add: session_action_def twice_config_def source_config_def rem_is_zero_def)
  from relaunch_schedule [of twice_config 0 "quiet_env (\<lambda>u. NavResponse (Some 200) ''OK'') (\<lambda>k. [])"
        twice_state1 twice_state2] twice_iteration2
  have "\<exists>l rest. synLinks twice_state1 = l # rest
          \<and> calls twice_state2 = calls twice_state1
               @ (case session_action twice_config (Suc (count twice_state1)) of
                    Relaunch \<Rightarrow> [CloseLaunch]
                  | ResetPage \<Rightarrow> [GotoBlank]
                  | UseAsIs \<Rightarrow> [])
               @ [Goto (getUrl l)]"
    by blast
  then obtain l rest where
    l: "synLinks twice_state1 = l # rest"
       "calls twice_state2 = calls twice_state1
               @ (case session_action twice_config (Suc (count twice_state1)) of
                    Relaunch \<Rightarrow> [CloseLaunch]
                  | ResetPage \<Rightarrow> [GotoBlank]
                  | UseAsIs \<Rightarrow> [])
               @ [Goto (getUrl l)]"
    by blast
  from l(1) have "getUrl l = ''https://a.example/''"
    by (auto simp: twice_state1_def SyntheticsLink_def)
  moreover have "Suc (count twice_state1) = Suc (Suc 0)" by (simp add: twice_state1_def)
  ultimately have d: "calls twice_state2 = calls twice_state1 @ [GotoBlank] @ [Goto ''https://a.example/'']"
    using l(2) c' by simp
  from a b c d show ?thesis by blast
qed

text \<open>
  C7 (the code departs from the claim). The options object that both navigations pass
  has no property named \<open>timeout\<close>: the configured value travels under the name
  \<open>TIMEOUT\<close>, which Puppeteer does not read.
\<close>

theorem goto_options_have_no_timeout:
  "timeout_option (goto_options cfg) = None
   \<and> map_of (goto_options cfg) ''TIMEOUT'' = Some (Number (TIMEOUT cfg))"
  by (simp add: timeout_option_def goto_options_def)

text \<open>
  C8. For every configuration and every behaviour of the collaborators, the loop ends:
  it tests its condition at most \<open>max (length URL_LIST) MAX_NUM_LINKS_TO_FOLLOW + 1\<close>
  times, so it runs its body at most \<open>max (length URL_LIST) MAX_NUM_LINKS_TO_FOLLOW\<close>
  times. The bound is the potential of the first state, which every iteration lowers.
\<close>

theorem crawl_terminates:
  "crawl_fuel (Suc (max (length (URL_LIST cfg)) (MAX_NUM_LINKS_TO_FOLLOW cfg))) cfg e (initial_state cfg)
     = Some (crawl_loop cfg e (initial_state cfg))"
proof -
  have "potential cfg (initial_state cfg) = max (length (URL_LIST cfg)) (MAX_NUM_LINKS_TO_FOLLOW cfg)"
    by (simp add: potential_def initial_state_def)
  then have "potential cfg (initial_state cfg)
               < Suc (max (length (URL_LIST cfg)) (MAX_NUM_LINKS_TO_FOLLOW cfg))"
    by simp
  then show ?thesis by (rule crawl_fuel_enough)
qed



text \<open>
  C10. When the browser is to be relaunched for a dequeued link and closing or launching
  throws, the iteration ends with that error, and so do the loop and the controller.
  Otherwise an iteration whose link has a valid address completes, whatever the blank
  page, the screenshots, the evaluation in the page and the report do: \<open>resetPage\<close>
  lets no error out, a screenshot that throws gives \<open>undefined\<close>, and an \<open>addLink\<close>
  that throws leaves the report as it was.
\<close>

theorem relaunch_failure_aborts:
  "(reachable cfg e s \<and> synLinks s = l # rest \<and> getFileName e (getUrl l) ''loaded'' = Inr f
      \<and> session_action cfg (count s + 1) = Relaunch \<and> relaunch_error e (count s + 1) = Some err
     \<longrightarrow> iteration cfg e s = Inl (SessionError err)
         \<and> crawl_loop cfg e (initial_state cfg) = Inl (SessionError err)
         \<and> webCrawlerController cfg e = Some (SessionError err))
   \<and> (synLinks s = l # rest \<and> getFileName e (getUrl l) ''loaded'' = Inr f
      \<and> (session_action cfg (count s + 1) = Relaunch \<longrightarrow> relaunch_error e (count s + 1) = None)
     \<longrightarrow> (\<exists>s'. iteration cfg e s = Inr s'))
   \<and> resetPage cfg e k = None
   \<and> (synthetics_takeScreenshot e k fileName sfx = Inl err' \<longrightarrow> takeScreenshot e k fileName sfx = None)
   \<and> (addLink_error e k = Some err'' \<longrightarrow> addLink e k l' entries = entries)"
proof (intro conjI impI)
  assume h: "reachable cfg e s \<and> synLinks s = l # rest \<and> getFileName e (getUrl l) ''loaded'' = Inr f
      \<and> session_action cfg (count s + 1) = Relaunch \<and> relaunch_error e (count s + 1) = Some err"
  then show i: "iteration cfg e s = Inl (SessionError err)"
    by (simp add: iteration_def prepare_page_def)
  from h have "synLinks s \<noteq> []" by auto
  with i have "crawl_loop cfg e s = Inl (SessionError err)" by (simp add: crawl_loop_abort)
  with h crawl_loop_from_reachable [of cfg e s]
  show c: "crawl_loop cfg e (initial_state cfg) = Inl (SessionError err)"
    by simp
  then show "webCrawlerController cfg e = Some (SessionError err)"
    by (simp add: webCrawlerController_def)
next
  assume h: "synLinks s = l # rest \<and> getFileName e (getUrl l) ''loaded'' = Inr f
      \<and> (session_action cfg (count s + 1) = Relaunch \<longrightarrow> relaunch_error e (count s + 1) = None)"
  have "\<exists>cs. prepare_page cfg e (count s + 1) = Inr cs"
    using h by (cases "session_action cfg (count s + 1)") (simp_all add: prepare_page_def resetPage_def split: navigation.splits)
  then obtain cs where "prepare_page cfg e (count s + 1) = Inr cs" by blast
  with h show "\<exists>s'. iteration cfg e s = Inr s'"
    by (simp add: iteration_def Let_def split: prod.splits)
next
  show "resetPage cfg e k = None"
    by (simp add: resetPage_def split: navigation.splits)
next
  assume "synthetics_takeScreenshot e k fileName sfx = Inl err'"
  then show "takeScreenshot e k fileName sfx = None" by (simp add: takeScreenshot_def)
next
  assume "addLink_error e k = Some err''"
  then show "addLink e k l' entries = entries" by (simp add: addLink_def)
qed

theorem relaunch_failure_aborts_witness:
  "session_action (source_config\<lparr>NUM_LINKS_TO_RELAUNCH_BROWSER := 1\<rparr>) 1 = Relaunch
   \<and> webCrawlerController (source_config\<lparr>NUM_LINKS_TO_RELAUNCH_BROWSER := 1\<rparr>)
        (failing_env (\<lambda>k. Some ''launch failed'')) = Some (SessionError ''launch failed'')
   \<and> session_action capture_config 2 = ResetPage
   \<and> blank_goto (failing_env (\<lambda>k. None)) 2 (goto_options capture_config) = NavThrows ''blank page timed out''
   \<and> (\<exists>s'. iteration capture_config (failing_env (\<lambda>k. None)) twice_state1 = Inr s')
   \<and> takeScreenshot (failing_env (\<lambda>k. None)) 2 ''index'' ''succeeded'' = None
   \<and> addLink (failing_env (\<lambda>k. None)) 2 (plain_link ''https://a.example/'') [] = []"
proof -
  let ?C = "source_config\<lparr>NUM_LINKS_TO_RELAUNCH_BROWSER := 1\<rparr>"
  let ?E = "failing_env (\<lambda>k. Some ''launch failed'')"
  let ?l = "SyntheticsLink ''https://www.mydomain.com/''"
  have a: "session_action ?C 1 = Relaunch"
    by (simp add: session_action_def rem_is_zero_def source_config_def)
  have h1: "reachable ?C ?E (initial_state ?C) \<and> synLinks (initial_state ?C) = ?l # []
      \<and> getFileName ?E (getUrl ?l) ''loaded'' = Inr ''index''
      \<and> session_action ?C (count (initial_state ?C) + 1) = Relaunch
      \<and> relaunch_error ?E (count (initial_state ?C) + 1) = Some ''launch failed''"
    using a reachable.start [of ?C ?E]
    by (simp add: initial_state_def source_config_def failing_env_def getFileName_def
          SyntheticsLink_def s3_char_def)
  from relaunch_failure_aborts [of ?C ?E "initial_state ?C" ?l "[]" "''index''" "''launch failed''"] h1
  have b: "webCrawlerController ?C ?E = Some (SessionError ''launch failed'')" by blast
  let ?D = capture_config
  let ?F = "failing_env (\<lambda>k. None)"
  let ?m = "SyntheticsLink ''https://a.example/''"
  have c: "session_action ?D 2 = ResetPage"
    by (simp add: session_action_def rem_is_zero_def capture_config_def twice_config_def source_config_def)
  have d: "blank_goto ?F 2 (goto_options ?D) = NavThrows ''blank page timed out''"
    by (simp add: failing_env_def)
  have h2: "synLinks twice_state1 = ?m # [] \<and> getFileName ?F (getUrl ?m) ''loaded'' = Inr ''index''
      \<and> (session_action ?D (count twice_state1 + 1) = Relaunch \<longrightarrow>
           relaunch_error ?F (count twice_state1 + 1) = None)"
    by (simp add: twice_state1_def failing_env_def getFileName_def SyntheticsLink_def s3_char_def)
  from relaunch_failure_aborts [of ?D ?F twice_state1 ?m "[]" "''index''"] h2
  have e: "\<exists>s'. iteration ?D ?F twice_state1 = Inr s'" by blast
  have "synthetics_takeScreenshot ?F 2 ''index'' ''succeeded'' = Inl ''no screenshot''"
       "addLink_error ?F 2 = Some ''not added''"
    by (simp_all add: failing_env_def)
  with relaunch_failure_aborts [of ?D ?F twice_state1 ?m "[]" "''index''" _ 2 "''index''" "''succeeded''"
         "''no screenshot''" "''not added''" "plain_link ''https://a.example/''" "[]"]
  have g: "takeScreenshot ?F 2 ''index'' ''succeeded'' = None"
          "addLink ?F 2 (plain_link ''https://a.example/'') [] = []"
    by blast+
  from a b c d e g show ?thesis by blast
qed

end
